theory Spec2Isabelle
  imports Complex_Main "HOL-Library.Multiset" "HOL-Library.List_Lexorder" "HOL-Library.Char_ord"
begin

section \<open>Data model (src/types.ts and the tables of storage/database.ts)\<close>

text \<open>
  JavaScript strings are modelled as \<^typ>\<open>string\<close>; an optional field (\<open>field?: T\<close>, or a
  nullable column) is an \<^typ>\<open>'a option\<close>. JavaScript numbers are modelled exactly: counts as
  \<^typ>\<open>nat\<close>, scores and similarities as \<^typ>\<open>real\<close> (rounding of doubles and NaN are outside
  the model). A table is the list of its rows in insertion order.
\<close>

datatype AgentType = ClaudeCode | Cursor | Aider | OpenClaw | UnknownAgent

datatype SessionStatus = Active | Completed | Abandoned

record Session =
  sessionId :: string
  projectPath :: string
  branch :: string
  startedAt :: string
  endedAt :: "string option"
  status :: SessionStatus
  summary :: "string option"
  gitCommitStart :: "string option"
  gitCommitEnd :: "string option"
  agentType :: "AgentType option"
  agentVersion :: "string option"

datatype EventType =
  FileRead | FileWrite | FileEdit | ToolCall | Decision | Pattern | ErrorResolved | Milestone

datatype EventCategory = CatRead | CatSearch | CatEdit | CatExecute | CatAgent | CatOther

datatype FileOperation = OpRead | OpWrite | OpEdit

text \<open>The tagged union \<open>EventDetail\<close>, one constructor per value of its \<open>type\<close> field.\<close>

datatype EventDetail =
  FileOpDetail string FileOperation
  | ToolCallDetail string "string option"
  | DecisionDetail string string
  | PatternDetail string "string list"
  | ErrorResolvedDetail string string "string list"
  | MilestoneDetail string

record SessionEvent =
  eventId :: string
  ev_sessionId :: string
  timestamp :: string
  eventType :: EventType
  category :: EventCategory
  detail :: EventDetail

datatype KnowledgeType = KDecision | KPattern | KErrorResolved | KMilestone

record PromotedKnowledge =
  knowledgeId :: string
  k_projectPath :: string
  k_sessionId :: "string option"
  sourceEventId :: "string option"
  title :: string
  content :: string
  knowledgeType :: KnowledgeType
  tags :: "string list"
  createdAt :: string
  syncedAt :: "string option"
  synapseKnowledgeId :: "string option"
  k_branch :: "string option"
  contentHash :: "string option"
  usageCount :: "nat option"
  supersededBy :: "string option"

text \<open>
  The store: the three tables the operations below read and write. The tables \<open>agents\<close>,
  \<open>value_metrics\<close>, \<open>knowledge_usage\<close> and \<open>file_importance\<close> are write-only counters for
  these operations and are not part of the model.
\<close>

record Database =
  sessions :: "Session list"
  session_events :: "SessionEvent list"
  promoted_knowledge :: "PromotedKnowledge list"

section \<open>Event classification (src/utils.ts)\<close>

fun categorizeEvent :: "EventType \<Rightarrow> EventCategory" where
  "categorizeEvent FileRead = CatRead"
| "categorizeEvent FileWrite = CatEdit"
| "categorizeEvent FileEdit = CatEdit"
| "categorizeEvent ToolCall = CatExecute"
| "categorizeEvent Decision = CatOther"
| "categorizeEvent Pattern = CatOther"
| "categorizeEvent ErrorResolved = CatOther"
| "categorizeEvent Milestone = CatOther"

fun deriveEventType :: "EventDetail \<Rightarrow> EventType" where
  "deriveEventType (FileOpDetail path operation) =
     (if operation = OpRead then FileRead
      else if operation = OpWrite then FileWrite
      else FileEdit)"
| "deriveEventType (ToolCallDetail toolName params) = ToolCall"
| "deriveEventType (DecisionDetail t rationale) = Decision"
| "deriveEventType (PatternDetail description files) = Pattern"
| "deriveEventType (ErrorResolvedDetail err resolution files) = ErrorResolved"
| "deriveEventType (MilestoneDetail s) = Milestone"

section \<open>SQL ordering and JavaScript sorting\<close>

text \<open>
  \<open>ORDER BY f DESC\<close> and \<open>Array.prototype.sort((a, b) => f(b) - f(a))\<close>: a stable sort into
  descending order of the key. Rows with equal keys keep their relative order (SQLite leaves the
  order of ties open; the model fixes it to insertion order). Text columns compare bytewise, which
  is the lexicographic order on \<^typ>\<open>string\<close>.
\<close>

definition sort_desc :: "('a \<Rightarrow> 'k::linorder) \<Rightarrow> 'a list \<Rightarrow> 'a list" where
  "sort_desc f xs = rev (sort_key f (rev xs))"

section \<open>Session and event storage (src/storage/sessions.ts, storage/events.ts)\<close>

text \<open>
  An \<open>INSERT\<close> throws when it violates a primary key or, since the store is opened with
  \<open>foreign_keys = ON\<close>, a foreign key; \<^const>\<open>None\<close> is the thrown error. The columns the
  statement does not name take their defaults (\<open>NULL\<close>).
\<close>

definition createSession :: "Database \<Rightarrow> Session \<Rightarrow> Database option" where
  "createSession db s =
     (if sessionId s \<in> set (map sessionId (sessions db)) then None
      else Some (db\<lparr>sessions := sessions db @
        [\<lparr>sessionId = sessionId s, projectPath = projectPath s, branch = branch s,
          startedAt = startedAt s, endedAt = None, status = status s, summary = None,
          gitCommitStart = gitCommitStart s, gitCommitEnd = None,
          agentType = Some (case agentType s of None \<Rightarrow> UnknownAgent | Some a \<Rightarrow> a),
          agentVersion = agentVersion s\<rparr>]\<rparr>))"

definition getSession :: "Database \<Rightarrow> string \<Rightarrow> Session option" where
  "getSession db sid = find (\<lambda>s. sessionId s = sid) (sessions db)"

text \<open>
  \<open>endSession\<close> runs its \<open>UPDATE ... WHERE session_id = ? AND status = 'active'\<close> and then
  looks at the number of rows changed.
\<close>

definition endSession ::
  "Database \<Rightarrow> string \<Rightarrow> string \<Rightarrow> string option \<Rightarrow> string option
     \<Rightarrow> Database \<times> Session option" where
  "endSession db sid ended summ commitEnd =
     (let changes = length (filter (\<lambda>s. sessionId s = sid \<and> status s = Active) (sessions db));
          db' = db\<lparr>sessions := map (\<lambda>s.
                  if sessionId s = sid \<and> status s = Active
                  then s\<lparr>endedAt := Some ended, status := Completed, summary := summ,
                          gitCommitEnd := commitEnd\<rparr>
                  else s) (sessions db)\<rparr>
      in if changes = 0 then (db', None) else (db', getSession db' sid))"

definition abandonStaleSessions :: "Database \<Rightarrow> string \<Rightarrow> string \<Rightarrow> Database \<times> nat" where
  "abandonStaleSessions db pp ended =
     (db\<lparr>sessions := map (\<lambda>s.
            if projectPath s = pp \<and> status s = Active
            then s\<lparr>endedAt := Some ended, status := Abandoned\<rparr>
            else s) (sessions db)\<rparr>,
      length (filter (\<lambda>s. projectPath s = pp \<and> status s = Active) (sessions db)))"

definition getActiveSession :: "Database \<Rightarrow> string \<Rightarrow> Session option" where
  "getActiveSession db pp =
     (case sort_desc startedAt
             (filter (\<lambda>s. projectPath s = pp \<and> status s = Active) (sessions db)) of
        [] \<Rightarrow> None
      | s # rest \<Rightarrow> Some s)"

text \<open>The branch filter applies when \<open>branch\<close> is truthy: present and not the empty string.\<close>

definition getRecentSessions ::
  "Database \<Rightarrow> string \<Rightarrow> nat \<Rightarrow> string option \<Rightarrow> Session list" where
  "getRecentSessions db pp limit br =
     take limit (sort_desc startedAt (filter (\<lambda>s.
        projectPath s = pp \<and> status s = Completed
        \<and> (case br of None \<Rightarrow> True | Some b \<Rightarrow> b = [] \<or> branch s = b)) (sessions db)))"

definition insertEvent :: "Database \<Rightarrow> SessionEvent \<Rightarrow> Database option" where
  "insertEvent db event =
     (if eventId event \<in> set (map eventId (session_events db)) then None
      else if ev_sessionId event \<notin> set (map sessionId (sessions db)) then None
      else Some (db\<lparr>session_events := session_events db @ [event]\<rparr>))"

record SessionMetrics =
  m_sessionId :: string
  durationSecs :: int
  eventsTotal :: nat
  eventsByCategory :: "EventCategory \<Rightarrow> nat"
  filesRead :: nat
  filesModified :: nat
  decisionsRecorded :: nat
  patternsDiscovered :: nat
  errorsResolved :: nat

text \<open>\<open>json_extract(detail_json, '$.path')\<close>: the path of a file operation, \<open>NULL\<close> otherwise.\<close>

fun detailPath :: "EventDetail \<Rightarrow> string option" where
  "detailPath (FileOpDetail path operation) = Some path"
| "detailPath d = None"

text \<open>
  \<open>getTime\<close> is \<open>new Date(text).getTime()\<close>, the parsed timestamp in milliseconds, and
  \<open>now\<close> the current time as text.
\<close>

definition computeMetrics ::
  "(string \<Rightarrow> int) \<Rightarrow> string \<Rightarrow> Database \<Rightarrow> string \<Rightarrow> SessionMetrics option" where
  "computeMetrics getTime now db sid =
     (case getSession db sid of
        None \<Rightarrow> None
      | Some s \<Rightarrow>
          let endTime = (case endedAt s of None \<Rightarrow> now | Some e \<Rightarrow> e);
              evs = filter (\<lambda>e. ev_sessionId e = sid) (session_events db);
              countByCategory = (\<lambda>c. length (filter (\<lambda>e. category e = c) evs));
              countByType = (\<lambda>t. length (filter (\<lambda>e. eventType e = t) evs))
          in Some \<lparr>m_sessionId = sid,
                   durationSecs = (getTime endTime - getTime (startedAt s)) div 1000,
                   eventsTotal = length evs,
                   eventsByCategory = countByCategory,
                   filesRead = length (remdups (List.map_filter (\<lambda>e. detailPath (detail e))
                       (filter (\<lambda>e. eventType e = FileRead) evs))),
                   filesModified = length (remdups (List.map_filter (\<lambda>e. detailPath (detail e))
                       (filter (\<lambda>e. eventType e = FileWrite \<or> eventType e = FileEdit) evs))),
                   decisionsRecorded = countByType Decision,
                   patternsDiscovered = countByType Pattern,
                   errorsResolved = countByType ErrorResolved\<rparr>)"

section \<open>Knowledge storage (src/storage/knowledge.ts, storage/knowledge-usage.ts)\<close>

text \<open>
  \<open>promoted_knowledge.session_id\<close> references \<open>sessions\<close> and \<open>source_event_id\<close> references
  \<open>session_events\<close>. The insert names neither \<open>synced_at\<close>, \<open>synapse_knowledge_id\<close> nor
  \<open>superseded_by\<close>, and stores \<open>usageCount ?? 0\<close>.
\<close>

definition insertKnowledge :: "Database \<Rightarrow> PromotedKnowledge \<Rightarrow> Database option" where
  "insertKnowledge db k =
     (if knowledgeId k \<in> set (map knowledgeId (promoted_knowledge db)) then None
      else if (case k_sessionId k of None \<Rightarrow> False
               | Some sid \<Rightarrow> sid \<notin> set (map sessionId (sessions db))) then None
      else if (case sourceEventId k of None \<Rightarrow> False
               | Some eid \<Rightarrow> eid \<notin> set (map eventId (session_events db))) then None
      else Some (db\<lparr>promoted_knowledge := promoted_knowledge db @
        [k\<lparr>syncedAt := None, synapseKnowledgeId := None, supersededBy := None,
           usageCount := Some (case usageCount k of None \<Rightarrow> 0 | Some n \<Rightarrow> n)\<rparr>]\<rparr>))"

definition getProjectKnowledge ::
  "Database \<Rightarrow> string \<Rightarrow> KnowledgeType option \<Rightarrow> nat \<Rightarrow> PromotedKnowledge list" where
  "getProjectKnowledge db pp kt limit =
     take limit (sort_desc createdAt (filter (\<lambda>k.
        k_projectPath k = pp
        \<and> (case kt of None \<Rightarrow> True | Some t \<Rightarrow> knowledgeType k = t)
        \<and> supersededBy k = None) (promoted_knowledge db)))"

definition getKnowledgeById :: "Database \<Rightarrow> string \<Rightarrow> PromotedKnowledge option" where
  "getKnowledgeById db kid = find (\<lambda>k. knowledgeId k = kid) (promoted_knowledge db)"

definition getUnsyncedKnowledge :: "Database \<Rightarrow> string \<Rightarrow> PromotedKnowledge list" where
  "getUnsyncedKnowledge db pp =
     sort_key createdAt (filter (\<lambda>k.
        k_projectPath k = pp \<and> syncedAt k = None \<and> supersededBy k = None)
        (promoted_knowledge db))"

definition getKnowledgeCount :: "Database \<Rightarrow> string \<Rightarrow> nat \<times> (KnowledgeType \<Rightarrow> nat)" where
  "getKnowledgeCount db pp =
     (let rows = filter (\<lambda>k. k_projectPath k = pp \<and> supersededBy k = None)
                   (promoted_knowledge db)
      in (length rows, \<lambda>t. length (filter (\<lambda>k. knowledgeType k = t) rows)))"

definition incrementUsageCount :: "Database \<Rightarrow> string \<Rightarrow> Database" where
  "incrementUsageCount db kid =
     db\<lparr>promoted_knowledge := map (\<lambda>k.
        if knowledgeId k = kid
        then k\<lparr>usageCount := Some (Suc (case usageCount k of None \<Rightarrow> 0 | Some n \<Rightarrow> n))\<rparr>
        else k) (promoted_knowledge db)\<rparr>"

text \<open>
  \<open>recordKnowledgeUsage\<close> appends a row with a freshly generated key to \<open>knowledge_usage\<close>
  (outside the model) and increments the usage counter of the item.
\<close>

definition recordKnowledgeUsage :: "Database \<Rightarrow> string \<Rightarrow> Database" where
  "recordKnowledgeUsage db kid = incrementUsageCount db kid"

section \<open>Deduplication (src/context/deduplication.ts)\<close>

text \<open>
  A character is one code unit from U+0000 to U+00FF. On these \<open>toLowerCase\<close> works
  character by character: it maps the capital letters \<open>A\<close>..\<open>Z\<close>, U+00C0..U+00D6 and
  U+00D8..U+00DE to their small letters and keeps every other character. The class \<open>\s\<close>
  (which is also what \<open>trim\<close> strips) is tab, line feed, vertical tab, form feed, carriage
  return, space and the no-break space U+00A0.
\<close>

definition lowerCaseTable :: "(char \<times> char) list" where
  "lowerCaseTable =
     zip ''ABCDEFGHIJKLMNOPQRSTUVWXYZ'' ''abcdefghijklmnopqrstuvwxyz'' @
     zip [CHR 0xC0, CHR 0xC1, CHR 0xC2, CHR 0xC3, CHR 0xC4, CHR 0xC5, CHR 0xC6, CHR 0xC7,
          CHR 0xC8, CHR 0xC9, CHR 0xCA, CHR 0xCB, CHR 0xCC, CHR 0xCD, CHR 0xCE, CHR 0xCF,
          CHR 0xD0, CHR 0xD1, CHR 0xD2, CHR 0xD3, CHR 0xD4, CHR 0xD5, CHR 0xD6,
          CHR 0xD8, CHR 0xD9, CHR 0xDA, CHR 0xDB, CHR 0xDC, CHR 0xDD, CHR 0xDE]
         [CHR 0xE0, CHR 0xE1, CHR 0xE2, CHR 0xE3, CHR 0xE4, CHR 0xE5, CHR 0xE6, CHR 0xE7,
          CHR 0xE8, CHR 0xE9, CHR 0xEA, CHR 0xEB, CHR 0xEC, CHR 0xED, CHR 0xEE, CHR 0xEF,
          CHR 0xF0, CHR 0xF1, CHR 0xF2, CHR 0xF3, CHR 0xF4, CHR 0xF5, CHR 0xF6,
          CHR 0xF8, CHR 0xF9, CHR 0xFA, CHR 0xFB, CHR 0xFC, CHR 0xFD, CHR 0xFE]"

definition toLowerChar :: "char \<Rightarrow> char" where
  "toLowerChar c = (case map_of lowerCaseTable c of None \<Rightarrow> c | Some l \<Rightarrow> l)"

definition toLowerCase :: "string \<Rightarrow> string" where
  "toLowerCase s = map toLowerChar s"

definition isWhitespace :: "char \<Rightarrow> bool" where
  "isWhitespace c =
     (c \<in> set [CHR 0x09, CHR 0x0A, CHR 0x0B, CHR 0x0C, CHR 0x0D, CHR '' '', CHR 0xA0])"

text \<open>\<open>replace(/\s+/g, ' ')\<close>: every maximal run of whitespace becomes one space.\<close>

function replaceWhitespaceRuns :: "string \<Rightarrow> string" where
  "replaceWhitespaceRuns [] = []"
| "replaceWhitespaceRuns (c # cs) =
     (if isWhitespace c then CHR '' '' # replaceWhitespaceRuns (dropWhile isWhitespace cs)
      else c # replaceWhitespaceRuns cs)"
  by pat_completeness auto
termination
  by (relation "measure length") (auto simp: le_imp_less_Suc length_dropWhile_le)

definition trim :: "string \<Rightarrow> string" where
  "trim s = rev (dropWhile isWhitespace (rev (dropWhile isWhitespace s)))"

definition normalizeContent :: "string \<Rightarrow> string" where
  "normalizeContent c = trim (replaceWhitespaceRuns (toLowerCase c))"

text \<open>
  \<open>sha256\<close> stands for \<open>createHash('sha256').update(s).digest('hex')\<close> of the Node
  library; the functions below take it as a parameter.
\<close>

definition computeContentHash :: "(string \<Rightarrow> string) \<Rightarrow> string \<Rightarrow> string" where
  "computeContentHash sha256 c = sha256 (normalizeContent c)"

text \<open>
  A JavaScript array assignment \<open>arr[i] = v\<close> at an index up to the length of the array: it
  overwrites inside the array and appends at its end. (The distance function never writes
  further out, where JavaScript would leave holes.)
\<close>

definition arr_set :: "'a list \<Rightarrow> nat \<Rightarrow> 'a \<Rightarrow> 'a list" where
  "arr_set xs i v = (if i < length xs then xs[i := v] else xs @ [v])"

text \<open>
  \<open>levenshteinDistance\<close> fills \<open>matrix\<close> row by row: the first loop creates the rows
  \<open>[i]\<close>, the second fills row 0 with \<open>0..a.length\<close>, the nested loops compute the cells
  \<open>matrix[i][j]\<close> for \<open>1 \<le> i \<le> b.length\<close> and \<open>1 \<le> j \<le> a.length\<close>.
\<close>

definition levenshteinCell :: "'a list \<Rightarrow> 'a list \<Rightarrow> nat list list \<Rightarrow> nat \<Rightarrow> nat \<Rightarrow> nat" where
  "levenshteinCell a b matrix i j =
     (if b ! (i - 1) = a ! (j - 1) then matrix ! (i - 1) ! (j - 1)
      else min (matrix ! (i - 1) ! (j - 1) + 1)
             (min (matrix ! i ! (j - 1) + 1) (matrix ! (i - 1) ! j + 1)))"

definition levenshteinDistance :: "'a list \<Rightarrow> 'a list \<Rightarrow> nat" where
  "levenshteinDistance a b =
     (let matrix0 = fold (\<lambda>i matrix. arr_set matrix i [i]) [0..<Suc (length b)] [];
          matrix1 = fold (\<lambda>j matrix. matrix[0 := arr_set (matrix ! 0) j j])
                      [0..<Suc (length a)] matrix0;
          matrix2 = fold (\<lambda>i. fold (\<lambda>j matrix.
                        matrix[i := arr_set (matrix ! i) j (levenshteinCell a b matrix i j)])
                      [1..<Suc (length a)]) [1..<Suc (length b)] matrix1
      in matrix2 ! length b ! length a)"

definition computeTitleSimilarity :: "string \<Rightarrow> string \<Rightarrow> real" where
  "computeTitleSimilarity title1 title2 =
     (let normalized1 = normalizeContent title1;
          normalized2 = normalizeContent title2
      in if normalized1 = normalized2 then 1
         else let maxLen = max (length normalized1) (length normalized2)
              in if maxLen = 0 then 1
                 else let distance = levenshteinDistance normalized1 normalized2
                      in 1 - real distance / real maxLen)"

datatype MatchType = ExactHash | TitleMatch

record DuplicateCandidate =
  existingKnowledge :: PromotedKnowledge
  similarityScore :: real
  matchType :: MatchType

text \<open>
  \<open>.get\<close> yields the first row of the query, \<open>.all\<close> every row; the final
  \<open>sort((a, b) => b.similarityScore - a.similarityScore)\<close> is stable.
\<close>

definition findDuplicates ::
  "(string \<Rightarrow> string) \<Rightarrow> Database \<Rightarrow> string \<Rightarrow> string \<Rightarrow> string
     \<Rightarrow> DuplicateCandidate list" where
  "findDuplicates sha256 db pp ttl cont =
     (let hash = computeContentHash sha256 cont in
      case find (\<lambda>k. k_projectPath k = pp \<and> contentHash k = Some hash
                      \<and> supersededBy k = None) (promoted_knowledge db) of
        Some exactMatch \<Rightarrow>
          [\<lparr>existingKnowledge = exactMatch, similarityScore = 1, matchType = ExactHash\<rparr>]
      | None \<Rightarrow>
          let candidates = filter (\<lambda>k. k_projectPath k = pp \<and> supersededBy k = None)
                             (promoted_knowledge db);
              duplicates = map (\<lambda>k. \<lparr>existingKnowledge = k,
                                      similarityScore = computeTitleSimilarity ttl (title k),
                                      matchType = TitleMatch\<rparr>)
                             (filter (\<lambda>k. computeTitleSimilarity ttl (title k) \<ge> 0.85)
                                candidates)
          in sort_desc similarityScore duplicates)"

definition markSuperseded :: "Database \<Rightarrow> string \<Rightarrow> string \<Rightarrow> Database" where
  "markSuperseded db oldKnowledgeId newKnowledgeId =
     db\<lparr>promoted_knowledge := map (\<lambda>k.
        if knowledgeId k = oldKnowledgeId then k\<lparr>supersededBy := Some newKnowledgeId\<rparr> else k)
        (promoted_knowledge db)\<rparr>"

section \<open>Relevance scoring (src/context/scoring.ts)\<close>

text \<open>\<open>!itemBranch\<close> holds for an absent branch and for the empty string.\<close>

definition computeBranchWeight :: "string option \<Rightarrow> string \<Rightarrow> real" where
  "computeBranchWeight itemBranch currentBranch =
     (if itemBranch = None \<or> itemBranch = Some [] then 0.5
      else if itemBranch = Some currentBranch then 1.0
      else if itemBranch = Some ''main'' \<or> itemBranch = Some ''master'' then 0.7
      else 0.3)"

text \<open>
  \<open>nowMs\<close> is \<open>Date.now()\<close> and \<open>getTime\<close> is \<open>new Date(text).getTime()\<close>, both in
  milliseconds; one reading of the clock serves a whole ranking.
\<close>

definition computeRecencyWeight :: "(string \<Rightarrow> int) \<Rightarrow> int \<Rightarrow> string \<Rightarrow> real" where
  "computeRecencyWeight getTime nowMs created =
     (let daysSince = real_of_int (nowMs - getTime created) / (1000 * 60 * 60 * 24)
      in if daysSince < 1 then 1.0
         else if daysSince < 7 then 0.8
         else if daysSince < 30 then 0.5
         else 0.3)"

definition computeUsageWeight :: "nat \<Rightarrow> real" where
  "computeUsageWeight n = 1.0 + ln (real n + 1) * 0.1"

record ScoredKnowledge =
  knowledge :: PromotedKnowledge
  relevanceScore :: real
  branchWeight :: real
  recencyWeight :: real

definition computeRelevanceScore ::
  "(string \<Rightarrow> int) \<Rightarrow> int \<Rightarrow> PromotedKnowledge \<Rightarrow> string \<Rightarrow> ScoredKnowledge" where
  "computeRelevanceScore getTime nowMs k currentBranch =
     (let bw = computeBranchWeight (k_branch k) currentBranch;
          rw = computeRecencyWeight getTime nowMs (createdAt k);
          uw = computeUsageWeight (case usageCount k of None \<Rightarrow> 0 | Some n \<Rightarrow> n)
      in \<lparr>knowledge = k,
          relevanceScore = bw * 0.4 + rw * 0.4 + (uw - 1.0) * 0.2 + 0.2,
          branchWeight = bw,
          recencyWeight = rw\<rparr>)"

definition rankKnowledge ::
  "(string \<Rightarrow> int) \<Rightarrow> int \<Rightarrow> PromotedKnowledge list \<Rightarrow> string \<Rightarrow> ScoredKnowledge list" where
  "rankKnowledge getTime nowMs items currentBranch =
     sort_desc relevanceScore
       (map (\<lambda>k. computeRelevanceScore getTime nowMs k currentBranch) items)"

record ScoredSession =
  session :: Session
  score :: real

definition scoreSession :: "(string \<Rightarrow> int) \<Rightarrow> int \<Rightarrow> Session \<Rightarrow> string \<Rightarrow> ScoredSession" where
  "scoreSession getTime nowMs s currentBranch =
     (let bw = computeBranchWeight (Some (branch s)) currentBranch;
          rw = computeRecencyWeight getTime nowMs (startedAt s)
      in \<lparr>session = s, score = bw * 0.5 + rw * 0.5\<rparr>)"

definition rankSessions ::
  "(string \<Rightarrow> int) \<Rightarrow> int \<Rightarrow> Session list \<Rightarrow> string \<Rightarrow> ScoredSession list" where
  "rankSessions getTime nowMs ss currentBranch =
     sort_desc score (map (\<lambda>s. scoreSession getTime nowMs s currentBranch) ss)"

section \<open>The record\_event tool (src/tools/record-event.ts)\<close>

datatype RecordEventResult =
  SessionNotFound string
  | SessionNotActive string SessionStatus
  | EventRecorded SessionEvent
  | RecordEventFailed

text \<open>
  \<open>newId\<close> and \<open>now\<close> are the results of \<open>generateId()\<close> and \<open>nowISO()\<close>. The handler
  destructures only \<open>sessionId\<close> and \<open>detail\<close> from its argument: the caller's \<open>eventType\<close>
  is a parameter that the body never reads.
\<close>

definition handleRecordEvent ::
  "string \<Rightarrow> string \<Rightarrow> Database \<Rightarrow> string \<Rightarrow> EventType option \<Rightarrow> EventDetail
     \<Rightarrow> Database \<times> RecordEventResult" where
  "handleRecordEvent newId now db sid callerEventType d =
     (case getSession db sid of
        None \<Rightarrow> (db, SessionNotFound sid)
      | Some sess \<Rightarrow>
          if status sess \<noteq> Active then (db, SessionNotActive sid (status sess))
          else
            let resolvedEventType = deriveEventType d;
                cat = categorizeEvent resolvedEventType;
                event = \<lparr>eventId = newId, ev_sessionId = sid, timestamp = now,
                         eventType = resolvedEventType, category = cat, detail = d\<rparr>
            in (case insertEvent db event of
                  None \<Rightarrow> (db, RecordEventFailed)
                | Some db' \<Rightarrow> (db', EventRecorded event)))"

section \<open>The session\_end tool (src/tools/session-end.ts)\<close>

datatype SessionEndResult =
  SessionNotFoundOrEnded string
  | SessionEndedNoMetrics string
  | SessionCompleted SessionMetrics "string option"

definition handleSessionEnd ::
  "(string \<Rightarrow> int) \<Rightarrow> string \<Rightarrow> Database \<Rightarrow> string \<Rightarrow> string option \<Rightarrow> string option
     \<Rightarrow> Database \<times> SessionEndResult" where
  "handleSessionEnd getTime now db sid summ gitCommit =
     (case endSession db sid now summ gitCommit of
        (db', None) \<Rightarrow> (db', SessionNotFoundOrEnded sid)
      | (db', Some s) \<Rightarrow>
          (case computeMetrics getTime now db' sid of
             None \<Rightarrow> (db', SessionEndedNoMetrics sid)
           | Some metrics \<Rightarrow> (db', SessionCompleted metrics summ)))"

section \<open>The session\_start tool (src/tools/session-start.ts)\<close>

text \<open>
  What the handler obtains from its surroundings: \<open>nowISO()\<close>, \<open>generateId()\<close>,
  \<open>getGitBranch\<close>, \<open>getGitHead\<close>, \<open>detectAgentType()\<close> and \<open>getAgentVersion()\<close>.
\<close>

record Env =
  env_now :: string
  env_newId :: string
  env_gitBranch :: string
  env_gitHead :: "string option"
  env_agentType :: AgentType
  env_agentVersion :: "string option"

datatype SessionStartResult =
  SessionStarted Session nat "ScoredSession list" "ScoredKnowledge list"
  | SessionStartFailed

text \<open>
  The handler abandons the stale sessions, creates the new one, ranks the ten most recent
  completed sessions and the thirty most recent knowledge items and records a usage for each of
  the fifteen items it surfaces. The abandon and the insert are separate statements: when the
  insert throws, the handler reports the failure and the abandoned sessions stay abandoned.
\<close>

definition handleSessionStart ::
  "Env \<Rightarrow> (string \<Rightarrow> int) \<Rightarrow> int \<Rightarrow> Database \<Rightarrow> string \<Rightarrow> string option \<Rightarrow> string option
     \<Rightarrow> AgentType option \<Rightarrow> string option \<Rightarrow> Database \<times> SessionStartResult" where
  "handleSessionStart env getTime nowMs db pp br gitCommit agent agentVer =
     (let now = env_now env;
          (db1, abandoned) = abandonStaleSessions db pp now;
          resolvedBranch = (case br of None \<Rightarrow> env_gitBranch env | Some b \<Rightarrow> b);
          resolvedCommit = (case gitCommit of None \<Rightarrow> env_gitHead env | Some c \<Rightarrow> Some c);
          resolvedAgentType = (case agent of None \<Rightarrow> env_agentType env | Some a \<Rightarrow> a);
          resolvedAgentVersion =
            (case agentVer of None \<Rightarrow> env_agentVersion env | Some v \<Rightarrow> Some v);
          newSession = \<lparr>sessionId = env_newId env, projectPath = pp, branch = resolvedBranch,
                     startedAt = now, endedAt = None, status = Active, summary = None,
                     gitCommitStart = resolvedCommit, gitCommitEnd = None,
                     agentType = Some resolvedAgentType,
                     agentVersion = resolvedAgentVersion\<rparr>
      in case createSession db1 newSession of
           None \<Rightarrow> (db1, SessionStartFailed)
         | Some db2 \<Rightarrow>
             let recentSessions = getRecentSessions db2 pp 10 None;
                 rankedSessions = take 5 (rankSessions getTime nowMs recentSessions resolvedBranch);
                 kn = getProjectKnowledge db2 pp None 30;
                 rankedKnowledge = take 15 (rankKnowledge getTime nowMs kn resolvedBranch);
                 db3 = fold (\<lambda>sk d. recordKnowledgeUsage d (knowledgeId (knowledge sk)))
                         rankedKnowledge db2
             in (db3, SessionStarted newSession abandoned rankedSessions rankedKnowledge))"

section \<open>The promote\_knowledge tool (src/tools/knowledge.ts)\<close>

datatype PromoteResult =
  DuplicateDetected DuplicateCandidate
  | KnowledgePromoted PromotedKnowledge nat
  | PromoteFailed

text \<open>
  \<open>!allowDuplicate\<close> holds when the flag is absent or false; \<open>if (sessionId)\<close> and
  \<open>if (supersedes)\<close> hold for a present, non-empty string.
\<close>

definition promoteInsert ::
  "(string \<Rightarrow> string) \<Rightarrow> string \<Rightarrow> string \<Rightarrow> Database \<Rightarrow> string \<Rightarrow> string \<Rightarrow> string
     \<Rightarrow> KnowledgeType \<Rightarrow> string list option \<Rightarrow> string option \<Rightarrow> string option
     \<Rightarrow> string option \<Rightarrow> Database \<times> PromoteResult" where
  "promoteInsert sha256 newId now db pp ttl cont kt tgs sid srcEvent supersedes =
     (let hash = computeContentHash sha256 cont;
          br = (case sid of None \<Rightarrow> None
                | Some i \<Rightarrow> if i = [] then None
                            else (case getSession db i of None \<Rightarrow> None
                                  | Some s \<Rightarrow> Some (branch s)));
          k = \<lparr>knowledgeId = newId, k_projectPath = pp, k_sessionId = sid,
                 sourceEventId = srcEvent, title = ttl, content = cont, knowledgeType = kt,
                 tags = (case tgs of None \<Rightarrow> [] | Some ts \<Rightarrow> ts), createdAt = now,
                 syncedAt = None, synapseKnowledgeId = None, k_branch = br,
                 contentHash = Some hash, usageCount = Some 0, supersededBy = None\<rparr>
      in case insertKnowledge db k of
           None \<Rightarrow> (db, PromoteFailed)
         | Some db1 \<Rightarrow>
             let db2 = (case supersedes of None \<Rightarrow> db1
                        | Some old \<Rightarrow> if old = [] then db1 else markSuperseded db1 old newId)
             in (db2, KnowledgePromoted k (length (getProjectKnowledge db2 pp None 100))))"

definition handlePromoteKnowledge ::
  "(string \<Rightarrow> string) \<Rightarrow> string \<Rightarrow> string \<Rightarrow> Database \<Rightarrow> string \<Rightarrow> string \<Rightarrow> string
     \<Rightarrow> KnowledgeType \<Rightarrow> string list option \<Rightarrow> string option \<Rightarrow> string option
     \<Rightarrow> bool option \<Rightarrow> string option \<Rightarrow> Database \<times> PromoteResult" where
  "handlePromoteKnowledge sha256 newId now db pp ttl cont kt tgs sid srcEvent allowDuplicate
       supersedes =
     (if allowDuplicate \<noteq> Some True \<and> findDuplicates sha256 db pp ttl cont \<noteq> []
      then (db, DuplicateDetected (hd (findDuplicates sha256 db pp ttl cont)))
      else promoteInsert sha256 newId now db pp ttl cont kt tgs sid srcEvent supersedes)"

section \<open>Schema migrations (src/storage/database.ts)\<close>

text \<open>
  A store file: the rows of \<open>schema_version\<close> (\<^const>\<open>None\<close> while the table does not
  exist) and the rest of the schema, of which the migration code knows nothing but what
  \<open>db.exec\<close> makes of it. \<open>exec sql schema\<close> is the SQL engine running one batch:
  \<^const>\<open>None\<close> when a statement of the batch throws.
\<close>

record 's Store =
  version_log :: "nat list option"
  schema :: 's

datatype MigrationError = MissingMigration nat | ExecFailed nat | VersionAlreadyLogged nat

definition CURRENT_SCHEMA_VERSION :: nat where
  "CURRENT_SCHEMA_VERSION = 3"

text \<open>The table of batches, each named by what it creates.\<close>

definition MIGRATIONS :: "nat \<Rightarrow> string option" where
  "MIGRATIONS v =
     (if v = 1 then Some ''sessions, session_events''
      else if v = 2 then Some ''promoted_knowledge, synapse_sync_config''
      else if v = 3 then Some ''agents, file_importance, knowledge_usage, value_metrics''
      else None)"

definition getSchemaVersion :: "'s Store \<Rightarrow> nat" where
  "getSchemaVersion st =
     (case version_log st of
        None \<Rightarrow> 0
      | Some rows \<Rightarrow> (case sort_desc id rows of [] \<Rightarrow> 0 | v # rest \<Rightarrow> v))"

text \<open>
  The body of the \<open>for\<close> loop inside \<open>db.transaction\<close>, run for the versions still to do;
  \<^const>\<open>Inl\<close> is the exception that leaves the loop.
\<close>

fun migrate :: "(string \<Rightarrow> 's \<Rightarrow> 's option) \<Rightarrow> nat list \<Rightarrow> 's Store \<Rightarrow> MigrationError + 's Store" where
  "migrate exec [] st = Inr st"
| "migrate exec (v # vs) st =
     (case MIGRATIONS v of
        None \<Rightarrow> Inl (MissingMigration v)
      | Some sql \<Rightarrow>
          (case exec sql (schema st) of
             None \<Rightarrow> Inl (ExecFailed v)
           | Some sch \<Rightarrow>
               let rows = (case version_log st of None \<Rightarrow> [] | Some r \<Rightarrow> r)
               in if v \<in> set rows then Inl (VersionAlreadyLogged v)
                  else migrate exec vs (st\<lparr>schema := sch, version_log := Some (rows @ [v])\<rparr>)))"

text \<open>
  \<open>runMigrations\<close> creates the version table if it is missing, reads the current version and
  runs the whole loop inside one \<open>db.transaction\<close>: an exception rolls the store back to where
  the transaction began and is thrown on to the caller.
\<close>

definition runMigrations ::
  "(string \<Rightarrow> 's \<Rightarrow> 's option) \<Rightarrow> 's Store \<Rightarrow> 's Store \<times> MigrationError option" where
  "runMigrations exec st =
     (let st0 = st\<lparr>version_log := Some (case version_log st of None \<Rightarrow> [] | Some r \<Rightarrow> r)\<rparr>;
          currentVersion = getSchemaVersion st0
      in case migrate exec [currentVersion + 1..<Suc CURRENT_SCHEMA_VERSION] st0 of
           Inl err \<Rightarrow> (st0, Some err)
         | Inr st1 \<Rightarrow> (st1, None))"

section \<open>Example stores and the session invariant\<close>

definition ex_session :: Session where
  "ex_session = \<lparr>sessionId = ''s1'', projectPath = ''/p'', branch = ''main'',
     startedAt = ''2026-01-15T10:00:00.000Z'', endedAt = None, status = Active, summary = None,
     gitCommitStart = None, gitCommitEnd = None, agentType = Some UnknownAgent,
     agentVersion = None\<rparr>"

definition ex_db :: Database where
  "ex_db = \<lparr>sessions = [ex_session], session_events = [], promoted_knowledge = []\<rparr>"

definition ex_event :: SessionEvent where
  "ex_event = \<lparr>eventId = ''e1'', ev_sessionId = ''s1'', timestamp = ''2026-01-15T10:05:00.000Z'',
     eventType = FileEdit, category = CatEdit, detail = FileOpDetail ''/src/a.ts'' OpEdit\<rparr>"

text \<open>At most one active session per project path: the active sessions have distinct paths.\<close>

definition atMostOneActive :: "Database \<Rightarrow> bool" where
  "atMostOneActive db =
     distinct (map projectPath (filter (\<lambda>s. status s = Active) (sessions db)))"

text \<open>The clock of the examples: the timestamps used below, in milliseconds.\<close>

definition ex_getTime :: "string \<Rightarrow> int" where
  "ex_getTime t =
     (if t = ''2026-01-15T10:00:00.000Z'' then 1768471200000
      else if t = ''2026-01-15T11:00:00.000Z'' then 1768474800000
      else if t = ''2026-01-15T12:00:00.000Z'' then 1768478400000
      else if t = ''2026-01-14T10:00:00.000Z'' then 1768384800000
      else if t = ''2025-11-01T10:00:00.000Z'' then 1761991200000
      else 0)"

definition ex_ended_db :: Database where
  "ex_ended_db = \<lparr>sessions = [ex_session\<lparr>endedAt := Some ''2026-01-15T11:00:00.000Z'',
       status := Completed, summary := Some ''First''\<rparr>],
     session_events = [], promoted_knowledge = []\<rparr>"


text \<open>
  The rows written by the two session updates and by session\_start: what the \<open>UPDATE\<close> of
  \<open>abandonStaleSessions\<close> and of \<open>endSession\<close> makes of a row, and the session that
  \<open>handleSessionStart\<close> inserts.
\<close>


definition abandoned_row :: "string \<Rightarrow> string \<Rightarrow> Session \<Rightarrow> Session" where
  "abandoned_row pp ended s =
     (if projectPath s = pp \<and> status s = Active
      then s\<lparr>endedAt := Some ended, status := Abandoned\<rparr> else s)"

definition completed_row ::
  "string \<Rightarrow> string \<Rightarrow> string option \<Rightarrow> string option \<Rightarrow> Session \<Rightarrow> Session" where
  "completed_row sid ended summ c s =
     (if sessionId s = sid \<and> status s = Active
      then s\<lparr>endedAt := Some ended, status := Completed, summary := summ, gitCommitEnd := c\<rparr>
      else s)"

definition started_session ::
  "Env \<Rightarrow> string \<Rightarrow> string option \<Rightarrow> string option \<Rightarrow> AgentType option \<Rightarrow> string option
     \<Rightarrow> Session" where
  "started_session env pp br gc ag av =
     \<lparr>sessionId = env_newId env, projectPath = pp,
      branch = (case br of None \<Rightarrow> env_gitBranch env | Some b \<Rightarrow> b),
      startedAt = env_now env, endedAt = None, status = Active, summary = None,
      gitCommitStart = (case gc of None \<Rightarrow> env_gitHead env | Some c \<Rightarrow> Some c),
      gitCommitEnd = None,
      agentType = Some (case ag of None \<Rightarrow> env_agentType env | Some a \<Rightarrow> a),
      agentVersion = (case av of None \<Rightarrow> env_agentVersion env | Some v \<Rightarrow> Some v)\<rparr>"

definition ex_env :: Env where
  "ex_env = \<lparr>env_now = ''2026-01-15T11:00:00.000Z'', env_newId = ''s2'',
     env_gitBranch = ''main'', env_gitHead = None, env_agentType = UnknownAgent,
     env_agentVersion = None\<rparr>"




text \<open>
  The store with its superseded knowledge removed, and an example item.
\<close>

definition withoutSuperseded :: "Database \<Rightarrow> Database" where
  "withoutSuperseded db =
     db\<lparr>promoted_knowledge := filter (\<lambda>k. supersededBy k = None) (promoted_knowledge db)\<rparr>"

definition ex_knowledge :: PromotedKnowledge where
  "ex_knowledge = \<lparr>knowledgeId = ''k1'', k_projectPath = ''/p'', k_sessionId = None,
     sourceEventId = None, title = ''Use JWT for authentication'',
     content = ''Tokens are signed'', knowledgeType = KDecision, tags = [],
     createdAt = ''2026-01-15T10:00:00.000Z'', syncedAt = None, synapseKnowledgeId = None,
     k_branch = Some ''main'', contentHash = Some ''tokens are signed'', usageCount = Some 0,
     supersededBy = None\<rparr>"

definition ex_superseded_db :: Database where
  "ex_superseded_db = \<lparr>sessions = [], session_events = [],
     promoted_knowledge = [ex_knowledge\<lparr>supersededBy := Some ''k2''\<rparr>]\<rparr>"

text \<open>
  The weights as the specification words them, for comparison with the scoring functions:
  the branch weight is 1.0 for the current branch, 0.7 for \<open>main\<close> and \<open>master\<close>, 0.3 for
  any other branch and 0.5 for an item without a branch; the recency weight is a step function
  of the age in days; the usage weight grows with the logarithm of the usage count.
\<close>

definition spec_branchWeight :: "string option \<Rightarrow> string \<Rightarrow> real" where
  "spec_branchWeight itemBranch currentBranch =
     (case itemBranch of
        None \<Rightarrow> 0.5
      | Some b \<Rightarrow> if b = currentBranch then 1.0
                  else if b = ''main'' \<or> b = ''master'' then 0.7
                  else 0.3)"

definition ageDays :: "(string \<Rightarrow> int) \<Rightarrow> int \<Rightarrow> string \<Rightarrow> real" where
  "ageDays getTime nowMs created = real_of_int (nowMs - getTime created) / 86400000"

definition spec_recencyWeight :: "real \<Rightarrow> real" where
  "spec_recencyWeight days =
     (if days < 1 then 1.0 else if days < 7 then 0.8 else if days < 30 then 0.5 else 0.3)"

definition spec_usageWeight :: "nat \<Rightarrow> real" where
  "spec_usageWeight n = 1.0 + ln (real n + 1) * 0.1"




text \<open>
  Running the batches of a list of versions one after the other, as far as the SQL engine
  accepts them, and the rows of the version table.
\<close>

fun apply_batches :: "(string \<Rightarrow> 's \<Rightarrow> 's option) \<Rightarrow> nat list \<Rightarrow> 's \<Rightarrow> 's option" where
  "apply_batches exec [] sch = Some sch"
| "apply_batches exec (v # vs) sch =
     (case MIGRATIONS v of
        None \<Rightarrow> None
      | Some sql \<Rightarrow> (case exec sql sch of None \<Rightarrow> None | Some sch' \<Rightarrow> apply_batches exec vs sch'))"

definition logged_versions :: "'s Store \<Rightarrow> nat list" where
  "logged_versions st = (case version_log st of None \<Rightarrow> [] | Some r \<Rightarrow> r)"

text \<open>An engine that accepts every batch but the one of version 2, and a new store file.\<close>

definition failing_exec :: "string \<Rightarrow> string list \<Rightarrow> string list option" where
  "failing_exec sql sch = (if MIGRATIONS 2 = Some sql then None else Some (sch @ [sql]))"

definition ex_fresh_store :: "string list Store" where
  "ex_fresh_store = \<lparr>version_log = None, schema = []\<rparr>"




text \<open>
  The edit distance in its recursive textbook form: the length of the other string when one is
  empty, the distance of the tails when the heads agree, and otherwise one more than the least
  of the three distances reached by a substitution, an insertion or a deletion.
\<close>

fun editDistance :: "'a list \<Rightarrow> 'a list \<Rightarrow> nat" where
  "editDistance [] ys = length ys"
| "editDistance xs [] = length xs"
| "editDistance (x # xs) (y # ys) =
     (if x = y then editDistance xs ys
      else 1 + min (editDistance xs ys) (min (editDistance (x # xs) ys) (editDistance xs (y # ys))))"

text \<open>
  What the cell \<open>matrix[i][j]\<close> of \<open>levenshteinDistance\<close> holds once it is written, and the
  matrix after the rows up to \<open>i\<close> are complete, and while row \<open>i\<close> is filled up to column
  \<open>j\<close>.
\<close>

definition prefixDistance :: "'a list \<Rightarrow> 'a list \<Rightarrow> nat \<Rightarrow> nat \<Rightarrow> nat" where
  "prefixDistance a b i j = editDistance (rev (take j a)) (rev (take i b))"

definition filledMatrix :: "'a list \<Rightarrow> 'a list \<Rightarrow> nat \<Rightarrow> nat list list" where
  "filledMatrix a b i =
     map (\<lambda>i'. if i' \<le> i then map (prefixDistance a b i') [0..<Suc (length a)] else [i'])
       [0..<Suc (length b)]"

definition partialMatrix :: "'a list \<Rightarrow> 'a list \<Rightarrow> nat \<Rightarrow> nat \<Rightarrow> nat list list" where
  "partialMatrix a b i j =
     (filledMatrix a b (i - 1))[i := map (prefixDistance a b i) [0..<Suc j]]"




text \<open>
  The normalization as the specification words it: the text is lower-cased, its whitespace runs
  are collapsed to a single space, and it is trimmed. Lower-casing moves a capital letter, a
  code unit from U+0041 to U+005A, from U+00C0 to U+00D6 or from U+00D8 to U+00DE, 32 places
  up to its small letter; whitespace is U+0009 to U+000D, U+0020 and U+00A0. The words of a
  text are its maximal runs of characters other than whitespace (such a character is a word's
  last one at the end of the text and before a whitespace, and goes in front of the word that
  follows it otherwise), and the normal form is the words of the lower-cased text joined by
  single spaces.
\<close>

definition spec_isCapital :: "char \<Rightarrow> bool" where
  "spec_isCapital c =
     (let n = of_char c :: nat
      in (0x41 \<le> n \<and> n \<le> 0x5A) \<or> (0xC0 \<le> n \<and> n \<le> 0xD6) \<or> (0xD8 \<le> n \<and> n \<le> 0xDE))"

definition spec_lowerCased :: "string \<Rightarrow> string" where
  "spec_lowerCased s =
     map (\<lambda>c. if spec_isCapital c then char_of (of_char c + 0x20 :: nat) else c) s"

definition spec_isSpace :: "char \<Rightarrow> bool" where
  "spec_isSpace c =
     (let n = of_char c :: nat in (0x09 \<le> n \<and> n \<le> 0x0D) \<or> n = 0x20 \<or> n = 0xA0)"

fun spec_words :: "string \<Rightarrow> string list" where
  "spec_words [] = []"
| "spec_words (c # cs) =
     (if spec_isSpace c then spec_words cs
      else if cs = [] \<or> spec_isSpace (hd cs) then [c] # spec_words cs
      else (case spec_words cs of [] \<Rightarrow> [[c]] | w # ws \<Rightarrow> (c # w) # ws))"

fun spec_joined :: "string list \<Rightarrow> string" where
  "spec_joined [] = []"
| "spec_joined [w] = w"
| "spec_joined (w # v # ws) = w @ CHR '' '' # spec_joined (v # ws)"

definition spec_normalized :: "string \<Rightarrow> string" where
  "spec_normalized s = spec_joined (spec_words (spec_lowerCased s))"

text \<open>What \<open>trim\<close> does at the end of a text.\<close>

definition trimEnd :: "string \<Rightarrow> string" where
  "trimEnd x = rev (dropWhile isWhitespace (rev x))"

text \<open>
  The title similarity as the specification words it: one minus the edit distance of the
  normalized titles over the length of the longer one, and 1.0 when both are empty.
\<close>

definition spec_titleSimilarity :: "string \<Rightarrow> string \<Rightarrow> real" where
  "spec_titleSimilarity a b =
     (let na = spec_normalized a; nb = spec_normalized b
      in if na = [] \<and> nb = [] then 1
         else 1 - real (editDistance na nb) / real (max (length na) (length nb)))"

text \<open>An example store with one knowledge item, and a stand-in for the digest.\<close>

definition ex_hash :: "string \<Rightarrow> string" where
  "ex_hash s = s"

definition ex_knowledge_db :: Database where
  "ex_knowledge_db = \<lparr>sessions = [], session_events = [], promoted_knowledge = [ex_knowledge]\<rparr>"

text \<open>
  A store with one item whose title and content carry letters outside ASCII: the title is
  \<open>CafE menu\<close> with a capital E acute (U+00C9), the content \<open>resume\<close> with both its e
  acute (U+00E9).
\<close>

definition ex_latin_knowledge :: PromotedKnowledge where
  "ex_latin_knowledge = \<lparr>knowledgeId = ''k7'', k_projectPath = ''/p'', k_sessionId = None,
     sourceEventId = None, title = ''Caf'' @ [CHR 0xC9] @ '' menu'',
     content = ''r'' @ [CHR 0xE9] @ ''sum'' @ [CHR 0xE9], knowledgeType = KPattern, tags = [],
     createdAt = ''2026-01-15T10:00:00.000Z'', syncedAt = None, synapseKnowledgeId = None,
     k_branch = Some ''main'', contentHash = Some (''r'' @ [CHR 0xE9] @ ''sum'' @ [CHR 0xE9]),
     usageCount = Some 0, supersededBy = None\<rparr>"

definition ex_latin_db :: Database where
  "ex_latin_db = \<lparr>sessions = [], session_events = [], promoted_knowledge = [ex_latin_knowledge]\<rparr>"

text \<open>
  A candidate content and a candidate title for it: the content is \<open>rEsumE\<close> with its first
  e acute small and its second capital, behind a no-break space and a space and before a tab;
  the title is \<open>CAFe Menus\<close> with a small e acute, between spaces and with a no-break space
  and a space inside.
\<close>

definition ex_candidate_content :: string where
  "ex_candidate_content = CHR 0xA0 # '' r'' @ CHR 0xE9 # ''SUM'' @ [CHR 0xC9, CHR 0x09]"

definition ex_candidate_title :: string where
  "ex_candidate_title = '' CAF'' @ CHR 0xE9 # CHR 0xA0 # '' Menus ''"

text \<open>The insert of a knowledge row meets the key constraints of the table.\<close>

definition insertAdmissible :: "Database \<Rightarrow> string \<Rightarrow> string option \<Rightarrow> string option \<Rightarrow> bool" where
  "insertAdmissible db newId sid srcEvent =
     (newId \<notin> set (map knowledgeId (promoted_knowledge db))
      \<and> (case sid of None \<Rightarrow> True | Some i \<Rightarrow> i \<in> set (map sessionId (sessions db)))
      \<and> (case srcEvent of None \<Rightarrow> True | Some e \<Rightarrow> e \<in> set (map eventId (session_events db))))"


section \<open>Properties\<close>

subsection \<open>Stable descending sort\<close>

lemma mset_sort_desc: "mset (sort_desc f xs) = mset xs"
  by (simp add: sort_desc_def)

lemma set_sort_desc: "set (sort_desc f xs) = set xs"
  by (simp add: sort_desc_def)

lemma length_sort_desc: "length (sort_desc f xs) = length xs"
  by (simp add: sort_desc_def)

lemma sorted_sort_desc: "sorted_wrt (\<lambda>x y. f x \<ge> f y) (sort_desc f xs)"
proof -
  have "sorted (map f (sort_key f (rev xs)))" by (rule sorted_sort_key)
  then have "sorted_wrt (\<lambda>x y. f x \<le> f y) (sort_key f (rev xs))"
    by (simp add: sorted_map)
  then show ?thesis
    by (simp add: sort_desc_def sorted_wrt_rev)
qed

lemma sort_desc_stable: "filter (\<lambda>y. f y = k) (sort_desc f xs) = filter (\<lambda>y. f y = k) xs"
proof -
  have "filter (\<lambda>y. f y = k) (sort_key f (rev xs)) = filter (\<lambda>y. f y = k) (rev xs)"
    by (rule sort_key_stable)
  then show ?thesis
    by (simp add: sort_desc_def rev_filter [symmetric])
qed

lemma sort_desc_Nil [simp]: "sort_desc f [] = []"
  by (simp add: sort_desc_def)

lemma sort_desc_single [simp]: "sort_desc f [x] = [x]"
  by (simp add: sort_desc_def)

subsection \<open>Recording events\<close>

lemma insertEvent_events:
  "insertEvent db ev = Some db' \<Longrightarrow> session_events db' = session_events db @ [ev]"
  unfolding insertEvent_def by (auto split: if_splits)

lemma insertEvent_sessions:
  "insertEvent db ev = Some db' \<Longrightarrow> sessions db' = sessions db"
  unfolding insertEvent_def by (auto split: if_splits)

lemma handleRecordEvent_stored:
  assumes "handleRecordEvent newId now db sid et d = (db', EventRecorded e)"
  shows "session_events db' = session_events db @ [e]
     \<and> eventType e = deriveEventType d
     \<and> category e = categorizeEvent (deriveEventType d)"
proof -
  define ev where "ev = \<lparr>eventId = newId, ev_sessionId = sid, timestamp = now,
      eventType = deriveEventType d, category = categorizeEvent (deriveEventType d),
      detail = d\<rparr>"
  obtain s where s: "getSession db sid = Some s"
    using assms by (cases "getSession db sid") (simp_all add: handleRecordEvent_def)
  have act: "status s = Active"
    using assms s by (cases "status s = Active") (simp_all add: handleRecordEvent_def)
  have run: "handleRecordEvent newId now db sid et d =
      (case insertEvent db ev of None \<Rightarrow> (db, RecordEventFailed)
       | Some db2 \<Rightarrow> (db2, EventRecorded ev))"
    unfolding handleRecordEvent_def ev_def Let_def using s act by simp
  have ins: "insertEvent db ev = Some db' \<and> e = ev"
    using assms unfolding run by (cases "insertEvent db ev") simp_all
  then have "session_events db' = session_events db @ [ev]"
    using insertEvent_events by blast
  with ins show ?thesis by (simp add: ev_def)
qed

lemma handleRecordEvent_sessions:
  "sessions (fst (handleRecordEvent newId now db sid et d)) = sessions db"
  unfolding handleRecordEvent_def Let_def
  by (auto split: option.splits dest: insertEvent_sessions)

lemma ex_record_event:
  "handleRecordEvent ''e1'' ''2026-01-15T10:05:00.000Z'' ex_db ''s1'' et
     (FileOpDetail ''/src/a.ts'' OpEdit)
   = (ex_db\<lparr>session_events := [ex_event]\<rparr>, EventRecorded ex_event)"
  by (simp add: handleRecordEvent_def getSession_def insertEvent_def ex_db_def ex_session_def
        ex_event_def Let_def)

text \<open>
  Claim C8. The event stored by record\_event does not depend on the caller-supplied event type:
  two calls that agree on everything but \<open>eventType\<close> return the same store and the same result;
  whenever an event is recorded it is appended to the event table with its type equal to
  \<open>deriveEventType detail\<close> and its category equal to \<open>categorizeEvent\<close> of that type; and
  \<open>categorizeEvent\<close> maps file\_read to read, file\_write and file\_edit to edit, tool\_call to
  execute, and decision, pattern, error\_resolved and milestone to other.
\<close>

theorem record_event_type_independent:
  "handleRecordEvent newId now db sid et1 d = handleRecordEvent newId now db sid et2 d
   \<and> (\<forall>db' e. handleRecordEvent newId now db sid et1 d = (db', EventRecorded e) \<longrightarrow>
         session_events db' = session_events db @ [e]
         \<and> eventType e = deriveEventType d
         \<and> category e = categorizeEvent (deriveEventType d))
   \<and> categorizeEvent FileRead = CatRead
   \<and> categorizeEvent FileWrite = CatEdit \<and> categorizeEvent FileEdit = CatEdit
   \<and> categorizeEvent ToolCall = CatExecute
   \<and> categorizeEvent Decision = CatOther \<and> categorizeEvent Pattern = CatOther
   \<and> categorizeEvent ErrorResolved = CatOther \<and> categorizeEvent Milestone = CatOther"
proof -
  have a: "handleRecordEvent newId now db sid et1 d = handleRecordEvent newId now db sid et2 d"
    by (simp add: handleRecordEvent_def)
  have b: "\<forall>db' e. handleRecordEvent newId now db sid et1 d = (db', EventRecorded e) \<longrightarrow>
         session_events db' = session_events db @ [e]
         \<and> eventType e = deriveEventType d
         \<and> category e = categorizeEvent (deriveEventType d)"
    using handleRecordEvent_stored by blast
  have c: "categorizeEvent FileRead = CatRead
   \<and> categorizeEvent FileWrite = CatEdit \<and> categorizeEvent FileEdit = CatEdit
   \<and> categorizeEvent ToolCall = CatExecute
   \<and> categorizeEvent Decision = CatOther \<and> categorizeEvent Pattern = CatOther
   \<and> categorizeEvent ErrorResolved = CatOther \<and> categorizeEvent Milestone = CatOther"
    by simp
  show ?thesis
    by (rule conjI [OF a conjI [OF b c]])
qed

text \<open>
  An edit of a file recorded under the caller's label \<open>milestone\<close> is stored exactly as under
  the label \<open>file_edit\<close>: as a file\_edit event of category edit.
\<close>

theorem record_event_type_independent_witness:
  "handleRecordEvent ''e1'' ''2026-01-15T10:05:00.000Z'' ex_db ''s1'' (Some Milestone)
     (FileOpDetail ''/src/a.ts'' OpEdit)
   = (ex_db\<lparr>session_events := [ex_event]\<rparr>, EventRecorded ex_event)
   \<and> handleRecordEvent ''e1'' ''2026-01-15T10:05:00.000Z'' ex_db ''s1'' (Some FileEdit)
     (FileOpDetail ''/src/a.ts'' OpEdit)
   = (ex_db\<lparr>session_events := [ex_event]\<rparr>, EventRecorded ex_event)
   \<and> eventType ex_event = deriveEventType (FileOpDetail ''/src/a.ts'' OpEdit)
   \<and> category ex_event = categorizeEvent (deriveEventType (FileOpDetail ''/src/a.ts'' OpEdit))"
  using record_event_type_independent [of "''e1''" "''2026-01-15T10:05:00.000Z''" ex_db "''s1''"
      "Some Milestone" "FileOpDetail ''/src/a.ts'' OpEdit" "Some FileEdit"]
    ex_record_event [of "Some Milestone"] ex_record_event [of "Some FileEdit"]
  by (simp add: ex_event_def)


subsection \<open>Ending a session\<close>

lemma endSession_noop:
  assumes "\<forall>s\<in>set (sessions db). sessionId s = sid \<longrightarrow> status s \<noteq> Active"
  shows "endSession db sid t summ c = (db, None)"
proof -
  have n: "\<And>s. s \<in> set (sessions db) \<Longrightarrow> \<not> (sessionId s = sid \<and> status s = Active)"
    using assms by blast
  have f: "filter (\<lambda>s. sessionId s = sid \<and> status s = Active) (sessions db) = []"
    unfolding filter_empty_conv using n by blast
  have m: "map (\<lambda>s. if sessionId s = sid \<and> status s = Active
                  then s\<lparr>endedAt := Some t, status := Completed, summary := summ,
                          gitCommitEnd := c\<rparr>
                  else s) (sessions db) = sessions db"
  proof (rule map_idI)
    fix s assume "s \<in> set (sessions db)"
    then have "\<not> (sessionId s = sid \<and> status s = Active)" by (rule n)
    then show "(if sessionId s = sid \<and> status s = Active
                  then s\<lparr>endedAt := Some t, status := Completed, summary := summ,
                          gitCommitEnd := c\<rparr>
                  else s) = s"
      by (simp only: if_not_P if_False)
  qed
  have "endSession db sid t summ c = (db\<lparr>sessions := sessions db\<rparr>, None)"
    unfolding endSession_def Let_def f m by (simp only: list.size simp_thms if_True)
  then show ?thesis
    by simp
qed

lemma endSession_sessions:
  "sessions (fst (endSession db sid t summ c)) =
     map (\<lambda>s. if sessionId s = sid \<and> status s = Active
                  then s\<lparr>endedAt := Some t, status := Completed, summary := summ,
                          gitCommitEnd := c\<rparr>
                  else s) (sessions db)"
  unfolding endSession_def Let_def by simp

lemma handleSessionEnd_fst:
  "fst (handleSessionEnd getTime now db sid summ c) = fst (endSession db sid now summ c)"
  unfolding handleSessionEnd_def
  by (auto split: prod.splits option.splits)

lemma endSession_no_active_after:
  "\<forall>s\<in>set (sessions (fst (endSession db sid t summ c))).
     sessionId s = sid \<longrightarrow> status s \<noteq> Active"
proof (intro ballI impI)
  fix s' assume a: "s' \<in> set (sessions (fst (endSession db sid t summ c)))"
    and b: "sessionId s' = sid"
  from a obtain s where s: "s' = (if sessionId s = sid \<and> status s = Active
                  then s\<lparr>endedAt := Some t, status := Completed, summary := summ,
                          gitCommitEnd := c\<rparr>
                  else s)"
    unfolding endSession_sessions set_map image_iff by blast
  show "status s' \<noteq> Active"
  proof (cases "sessionId s = sid \<and> status s = Active")
    case True
    then show ?thesis using s by simp
  next
    case False
    with s have "s' = s" by (simp only: if_not_P if_False)
    with b False show ?thesis by simp
  qed
qed

lemma handleSessionEnd_noop:
  assumes "\<forall>s\<in>set (sessions db). sessionId s = sid \<longrightarrow> status s \<noteq> Active"
  shows "handleSessionEnd getTime now db sid summ c = (db, SessionNotFoundOrEnded sid)"
  unfolding handleSessionEnd_def endSession_noop [OF assms] by simp



text \<open>
  Claim C7. Ending a session that is not active (completed, abandoned or absent: no stored
  session has this identifier and status active) changes nothing: the store returned is the
  store given and the result is "not found or already ended". In particular a second
  session\_end of the same identifier, whatever its arguments, leaves the store as the first call
  left it, with the summary, end time, status and end commit of every session.
\<close>

theorem session_end_not_active_is_noop:
  "((\<forall>s\<in>set (sessions db). sessionId s = sid \<longrightarrow> status s \<noteq> Active) \<longrightarrow>
      handleSessionEnd getTime now db sid summ c = (db, SessionNotFoundOrEnded sid))
   \<and> (let db1 = fst (handleSessionEnd getTime now1 db sid summ1 c1)
      in handleSessionEnd getTime now2 db1 sid summ2 c2 = (db1, SessionNotFoundOrEnded sid))"
proof -
  have "handleSessionEnd getTime now2 (fst (handleSessionEnd getTime now1 db sid summ1 c1)) sid summ2 c2
      = (fst (handleSessionEnd getTime now1 db sid summ1 c1), SessionNotFoundOrEnded sid)"
    unfolding handleSessionEnd_fst
    by (rule handleSessionEnd_noop) (rule endSession_no_active_after)
  then have b: "let db1 = fst (handleSessionEnd getTime now1 db sid summ1 c1)
      in handleSessionEnd getTime now2 db1 sid summ2 c2 = (db1, SessionNotFoundOrEnded sid)"
    by (simp only: Let_def)
  have a: "(\<forall>s\<in>set (sessions db). sessionId s = sid \<longrightarrow> status s \<noteq> Active) \<longrightarrow>
      handleSessionEnd getTime now db sid summ c = (db, SessionNotFoundOrEnded sid)"
    using handleSessionEnd_noop by blast
  show ?thesis
    by (rule conjI [OF a b])
qed

lemma ex_first_end:
  "fst (handleSessionEnd ex_getTime ''2026-01-15T11:00:00.000Z'' ex_db ''s1'' (Some ''First'') None)
     = ex_ended_db"
  by (simp add: handleSessionEnd_fst endSession_def ex_db_def ex_session_def ex_ended_db_def
        Let_def)

theorem session_end_not_active_is_noop_witness:
  "map (\<lambda>s. (sessionId s, status s)) (sessions ex_ended_db) = [(''s1'', Completed)]
   \<and> handleSessionEnd ex_getTime ''2026-01-15T12:00:00.000Z'' ex_ended_db ''s1'' (Some ''Second'')
        (Some ''abc123'')
     = (ex_ended_db, SessionNotFoundOrEnded ''s1'')
   \<and> handleSessionEnd ex_getTime ''2026-01-15T12:00:00.000Z''
        (fst (handleSessionEnd ex_getTime ''2026-01-15T11:00:00.000Z'' ex_db ''s1'' (Some ''First'')
           None)) ''s1'' (Some ''Second'') (Some ''abc123'')
     = (ex_ended_db, SessionNotFoundOrEnded ''s1'')
   \<and> map summary (sessions ex_ended_db) = [Some ''First'']"
proof -
  have h: "\<forall>s\<in>set (sessions ex_ended_db). sessionId s = ''s1'' \<longrightarrow> status s \<noteq> Active"
    by (simp add: ex_ended_db_def ex_session_def)
  show ?thesis
    using h session_end_not_active_is_noop [of ex_ended_db "''s1''" ex_getTime
        "''2026-01-15T12:00:00.000Z''" "Some ''Second''" "Some ''abc123''"
        "''2026-01-15T11:00:00.000Z''" "Some ''First''" None "''2026-01-15T12:00:00.000Z''"
        "Some ''Second''" "Some ''abc123''"]
      session_end_not_active_is_noop [of ex_db "''s1''" ex_getTime
        "''2026-01-15T12:00:00.000Z''" "Some ''Second''" "Some ''abc123''"
        "''2026-01-15T11:00:00.000Z''" "Some ''First''" None "''2026-01-15T12:00:00.000Z''"
        "Some ''Second''" "Some ''abc123''"]
    by (simp add: Let_def ex_first_end) (simp add: ex_ended_db_def ex_session_def)
qed



subsection \<open>Starting a session\<close>

lemma filter_after_update:
  assumes "\<And>x. P (g x) \<Longrightarrow> g x = x \<and> P x"
  shows "filter P (map g xs) = filter (\<lambda>x. P (g x)) (filter P xs)"
proof (induction xs)
  case Nil
  show ?case by simp
next
  case (Cons x xs)
  show ?case
  proof (cases "P (g x)")
    case True
    with assms have "g x = x" "P x" by blast+
    with True Cons show ?thesis by simp
  next
    case False
    with Cons show ?thesis by simp
  qed
qed

lemma in_set_map_filter_map:
  "y \<in> set (map f (filter P (map g xs))) \<Longrightarrow> \<exists>x. P (g x) \<and> y = f (g x)"
  by (induction xs) (auto split: if_splits)

lemma distinct_after_update:
  assumes "\<And>x. P (g x) \<Longrightarrow> g x = x \<and> P x" and "distinct (map f (filter P xs))"
  shows "distinct (map f (filter P (map g xs)))"
proof -
  have "filter P (map g xs) = filter (\<lambda>x. P (g x)) (filter P xs)"
    by (rule filter_after_update) (rule assms(1))
  moreover have "distinct (map f (filter (\<lambda>x. P (g x)) (filter P xs)))"
    using assms(2) by (rule distinct_map_filter)
  ultimately show ?thesis by (simp only:)
qed

lemma abandoned_row_active:
  "status (abandoned_row pp t s) = Active \<Longrightarrow>
     abandoned_row pp t s = s \<and> status s = Active"
  by (cases "projectPath s = pp \<and> status s = Active") (simp_all add: abandoned_row_def)

lemma abandoned_row_active_path:
  "status (abandoned_row pp t s) = Active \<Longrightarrow> projectPath (abandoned_row pp t s) \<noteq> pp"
  by (cases "projectPath s = pp \<and> status s = Active") (simp_all add: abandoned_row_def)

lemma abandoned_row_id [simp]: "sessionId (abandoned_row pp t s) = sessionId s"
  by (simp add: abandoned_row_def)

lemma completed_row_active:
  "status (completed_row sid t summ c s) = Active \<Longrightarrow>
     completed_row sid t summ c s = s \<and> status s = Active"
  by (cases "sessionId s = sid \<and> status s = Active") (simp_all add: completed_row_def)

lemma abandonStaleSessions_sessions:
  "sessions (fst (abandonStaleSessions db pp t)) = map (abandoned_row pp t) (sessions db)"
  by (simp add: abandonStaleSessions_def abandoned_row_def)

lemma fold_usage_sessions:
  "sessions (fold (\<lambda>sk d. recordKnowledgeUsage d (h sk)) xs d0) = sessions d0"
  by (induction xs arbitrary: d0) (simp_all add: recordKnowledgeUsage_def incrementUsageCount_def)


lemma abandonStaleSessions_eq:
  "abandonStaleSessions db pp t =
     (db\<lparr>sessions := map (abandoned_row pp t) (sessions db)\<rparr>,
      length (filter (\<lambda>s. projectPath s = pp \<and> status s = Active) (sessions db)))"
  by (simp add: abandonStaleSessions_def abandoned_row_def [abs_def])

lemma handleSessionStart_sessions:
  "sessions (fst (handleSessionStart env getTime nowMs db pp br gc ag av)) =
     (if env_newId env \<in> set (map sessionId (sessions db))
      then map (abandoned_row pp (env_now env)) (sessions db)
      else map (abandoned_row pp (env_now env)) (sessions db) @
             [started_session env pp br gc ag av])"
  unfolding handleSessionStart_def Let_def abandonStaleSessions_eq started_session_def
  by (simp add: createSession_def fold_usage_sessions image_image)

lemma handleSessionEnd_sessions:
  "sessions (fst (handleSessionEnd getTime now db sid summ c)) =
     map (completed_row sid now summ c) (sessions db)"
  by (simp add: handleSessionEnd_fst endSession_sessions completed_row_def [abs_def])

lemma insertKnowledge_sessions:
  "insertKnowledge db k = Some db' \<Longrightarrow> sessions db' = sessions db"
  unfolding insertKnowledge_def by (auto split: if_splits)

lemma promoteInsert_sessions:
  "sessions (fst (promoteInsert sha256 newId now db pp ttl cont kt tgs sid src supers)) = sessions db"
proof -
  define k where "k = \<lparr>knowledgeId = newId, k_projectPath = pp, k_sessionId = sid,
                 sourceEventId = src, title = ttl, content = cont, knowledgeType = kt,
                 tags = (case tgs of None \<Rightarrow> [] | Some ts \<Rightarrow> ts), createdAt = now,
                 syncedAt = None, synapseKnowledgeId = None,
                 k_branch = (case sid of None \<Rightarrow> None
                   | Some i \<Rightarrow> if i = [] then None
                            else (case getSession db i of None \<Rightarrow> None
                                  | Some s \<Rightarrow> Some (branch s))),
                 contentHash = Some (computeContentHash sha256 cont), usageCount = Some 0,
                 supersededBy = None\<rparr>"
  show ?thesis
  proof (cases "insertKnowledge db k")
    case None
    then show ?thesis
      unfolding promoteInsert_def Let_def k_def by simp
  next
    case (Some db1)
    then have "sessions db1 = sessions db" by (rule insertKnowledge_sessions)
    with Some show ?thesis
      unfolding promoteInsert_def Let_def k_def
      by (simp add: markSuperseded_def split: option.splits)
  qed
qed

lemma handlePromoteKnowledge_sessions:
  "sessions (fst (handlePromoteKnowledge sha256 newId now db pp ttl cont kt tgs sid src allow supers))
     = sessions db"
  unfolding handlePromoteKnowledge_def by (simp add: promoteInsert_sessions)

lemma atMostOneActive_start:
  assumes "atMostOneActive db"
  shows "atMostOneActive (fst (handleSessionStart env getTime nowMs db pp br gc ag av))"
proof -
  let ?g = "abandoned_row pp (env_now env)"
  let ?A = "\<lambda>s. status s = Active"
  have d: "distinct (map projectPath (filter ?A (map ?g (sessions db))))"
  proof (rule distinct_after_update)
    show "\<And>x. status (?g x) = Active \<Longrightarrow> ?g x = x \<and> status x = Active"
      by (rule abandoned_row_active)
    show "distinct (map projectPath (filter ?A (sessions db)))"
      using assms by (simp only: atMostOneActive_def)
  qed
  have n: "pp \<notin> set (map projectPath (filter ?A (map ?g (sessions db))))"
  proof
    assume mem: "pp \<in> set (map projectPath (filter ?A (map ?g (sessions db))))"
    have "\<exists>s. status (?g s) = Active \<and> pp = projectPath (?g s)"
      by (rule in_set_map_filter_map [OF mem])
    then obtain s where "status (?g s) = Active" "pp = projectPath (?g s)"
      by (elim exE conjE)
    then show False using abandoned_row_active_path [of pp "env_now env" s] by simp
  qed
  have st: "status (started_session env pp br gc ag av) = Active"
    "projectPath (started_session env pp br gc ag av) = pp"
    by (simp_all add: started_session_def)
  show ?thesis
  proof (cases "env_newId env \<in> set (map sessionId (sessions db))")
    case True
    then have "sessions (fst (handleSessionStart env getTime nowMs db pp br gc ag av))
        = map ?g (sessions db)"
      by (simp only: handleSessionStart_sessions if_True)
    with d show ?thesis by (simp only: atMostOneActive_def)
  next
    case False
    then have "sessions (fst (handleSessionStart env getTime nowMs db pp br gc ag av))
        = map ?g (sessions db) @ [started_session env pp br gc ag av]"
      by (simp only: handleSessionStart_sessions if_False)
    moreover have "map projectPath (filter ?A
        (map ?g (sessions db) @ [started_session env pp br gc ag av]))
        = map projectPath (filter ?A (map ?g (sessions db))) @ [pp]"
      by (simp only: filter_append filter.simps st simp_thms if_True map_append list.map)
    moreover have "distinct (map projectPath (filter ?A (map ?g (sessions db))) @ [pp])"
      using d n by (simp only: distinct_append distinct.simps list.set) simp
    ultimately show ?thesis by (simp only: atMostOneActive_def)
  qed
qed

lemma atMostOneActive_end:
  assumes "atMostOneActive db"
  shows "atMostOneActive (fst (handleSessionEnd getTime now db sid summ c))"
  unfolding atMostOneActive_def handleSessionEnd_sessions
proof (rule distinct_after_update)
  show "\<And>x. status (completed_row sid now summ c x) = Active \<Longrightarrow>
      completed_row sid now summ c x = x \<and> status x = Active"
    by (rule completed_row_active)
  show "distinct (map projectPath (filter (\<lambda>s. status s = Active) (sessions db)))"
    using assms by (simp only: atMostOneActive_def)
qed

lemma active_after_start:
  assumes "env_newId env \<notin> set (map sessionId (sessions db))"
  shows "filter (\<lambda>s. projectPath s = pp \<and> status s = Active)
           (sessions (fst (handleSessionStart env getTime nowMs db pp br gc ag av)))
         = [started_session env pp br gc ag av]"
proof -
  let ?g = "abandoned_row pp (env_now env)"
  have "\<forall>x\<in>set (map ?g (sessions db)). \<not> (projectPath x = pp \<and> status x = Active)"
  proof (intro ballI)
    fix x assume "x \<in> set (map ?g (sessions db))"
    then obtain s where "x = ?g s" by (simp only: set_map image_iff) blast
    show "\<not> (projectPath x = pp \<and> status x = Active)"
    proof
      assume "projectPath x = pp \<and> status x = Active"
      with \<open>x = ?g s\<close> have "status (?g s) = Active" "projectPath (?g s) = pp"
        by simp_all
      then show False using abandoned_row_active_path by blast
    qed
  qed
  then have e: "filter (\<lambda>s. projectPath s = pp \<and> status s = Active) (map ?g (sessions db)) = []"
    by (simp only: filter_empty_conv)
  have "sessions (fst (handleSessionStart env getTime nowMs db pp br gc ag av))
      = map ?g (sessions db) @ [started_session env pp br gc ag av]"
    by (simp only: handleSessionStart_sessions assms if_False)
  moreover have "status (started_session env pp br gc ag av) = Active"
    "projectPath (started_session env pp br gc ag av) = pp"
    by (simp_all add: started_session_def)
  ultimately show ?thesis
    by (simp only: filter_append e filter.simps simp_thms if_True append_Nil)
qed

text \<open>
  Claim C2. The operations keep the invariant that a project path has at most one active
  session: session\_start, session\_end, record\_event and promote\_knowledge each return a store
  that satisfies it when the store they were given does. With a fresh session identifier,
  session\_start turns every active session of the project into an abandoned one, leaves every
  other row as it was and appends one new active session; afterwards the active sessions of the
  project are exactly that new session, and \<open>getActiveSession\<close> returns it.
\<close>

theorem session_start_one_active_session:
  "(atMostOneActive db \<longrightarrow>
      atMostOneActive (fst (handleSessionStart env getTime nowMs db pp br gc ag av))
      \<and> atMostOneActive (fst (handleSessionEnd getTime now db sid summ c))
      \<and> atMostOneActive (fst (handleRecordEvent newId now db sid et d))
      \<and> atMostOneActive (fst (handlePromoteKnowledge sha256 newId now db pp ttl cont kt tgs ksid
            src allow supers)))
   \<and> (env_newId env \<notin> set (map sessionId (sessions db)) \<longrightarrow>
        sessions (fst (handleSessionStart env getTime nowMs db pp br gc ag av))
          = map (abandoned_row pp (env_now env)) (sessions db)
              @ [started_session env pp br gc ag av]
        \<and> filter (\<lambda>s. projectPath s = pp \<and> status s = Active)
             (sessions (fst (handleSessionStart env getTime nowMs db pp br gc ag av)))
          = [started_session env pp br gc ag av]
        \<and> getActiveSession (fst (handleSessionStart env getTime nowMs db pp br gc ag av)) pp
          = Some (started_session env pp br gc ag av)
        \<and> status (started_session env pp br gc ag av) = Active
        \<and> projectPath (started_session env pp br gc ag av) = pp)"
proof -
  have i1: "atMostOneActive (fst (handleSessionStart env getTime nowMs db pp br gc ag av))"
    if "atMostOneActive db" using that by (rule atMostOneActive_start)
  have i2: "atMostOneActive (fst (handleSessionEnd getTime now db sid summ c))"
    if "atMostOneActive db" using that by (rule atMostOneActive_end)
  have i3: "atMostOneActive (fst (handleRecordEvent newId now db sid et d))"
    if "atMostOneActive db"
    using that by (simp only: atMostOneActive_def handleRecordEvent_sessions)
  have i4: "atMostOneActive (fst (handlePromoteKnowledge sha256 newId now db pp ttl cont kt tgs
      ksid src allow supers))"
    if "atMostOneActive db"
    using that by (simp only: atMostOneActive_def handlePromoteKnowledge_sessions)
  have s1: "sessions (fst (handleSessionStart env getTime nowMs db pp br gc ag av))
          = map (abandoned_row pp (env_now env)) (sessions db)
              @ [started_session env pp br gc ag av]"
    if "env_newId env \<notin> set (map sessionId (sessions db))"
    by (simp only: handleSessionStart_sessions that if_False)
  have s2: "filter (\<lambda>s. projectPath s = pp \<and> status s = Active)
             (sessions (fst (handleSessionStart env getTime nowMs db pp br gc ag av)))
          = [started_session env pp br gc ag av]"
    if "env_newId env \<notin> set (map sessionId (sessions db))"
    using that by (rule active_after_start)
  have s3: "getActiveSession (fst (handleSessionStart env getTime nowMs db pp br gc ag av)) pp
          = Some (started_session env pp br gc ag av)"
    if "env_newId env \<notin> set (map sessionId (sessions db))"
    unfolding getActiveSession_def s2 [OF that] by simp
  have s4: "status (started_session env pp br gc ag av) = Active
        \<and> projectPath (started_session env pp br gc ag av) = pp"
    by (simp add: started_session_def)
  have A: "atMostOneActive db \<longrightarrow>
      atMostOneActive (fst (handleSessionStart env getTime nowMs db pp br gc ag av))
      \<and> atMostOneActive (fst (handleSessionEnd getTime now db sid summ c))
      \<and> atMostOneActive (fst (handleRecordEvent newId now db sid et d))
      \<and> atMostOneActive (fst (handlePromoteKnowledge sha256 newId now db pp ttl cont kt tgs ksid
            src allow supers))"
    by (intro impI conjI; (erule i1 | erule i2 | erule i3 | erule i4))
  have B: "env_newId env \<notin> set (map sessionId (sessions db)) \<longrightarrow>
        sessions (fst (handleSessionStart env getTime nowMs db pp br gc ag av))
          = map (abandoned_row pp (env_now env)) (sessions db)
              @ [started_session env pp br gc ag av]
        \<and> filter (\<lambda>s. projectPath s = pp \<and> status s = Active)
             (sessions (fst (handleSessionStart env getTime nowMs db pp br gc ag av)))
          = [started_session env pp br gc ag av]
        \<and> getActiveSession (fst (handleSessionStart env getTime nowMs db pp br gc ag av)) pp
          = Some (started_session env pp br gc ag av)
        \<and> status (started_session env pp br gc ag av) = Active
        \<and> projectPath (started_session env pp br gc ag av) = pp"
    by (intro impI conjI; (erule s1 | erule s2 | erule s3 | rule s4 [THEN conjunct1]
          | rule s4 [THEN conjunct2]))
  show ?thesis by (rule conjI [OF A B])
qed

theorem session_start_one_active_session_witness:
  "atMostOneActive ex_db
   \<and> env_newId ex_env \<notin> set (map sessionId (sessions ex_db))
   \<and> map (\<lambda>s. (sessionId s, projectPath s, status s))
        (sessions (fst (handleSessionStart ex_env ex_getTime 1768474800000 ex_db ''/p'' None None
           None None)))
      = [(''s1'', ''/p'', Abandoned), (''s2'', ''/p'', Active)]
   \<and> map_option sessionId
        (getActiveSession (fst (handleSessionStart ex_env ex_getTime 1768474800000 ex_db ''/p''
           None None None None)) ''/p'') = Some ''s2''
   \<and> atMostOneActive (fst (handleSessionStart ex_env ex_getTime 1768474800000 ex_db ''/p'' None
        None None None))"
proof -
  have a: "atMostOneActive ex_db"
    by (simp add: atMostOneActive_def ex_db_def ex_session_def)
  have f: "env_newId ex_env \<notin> set (map sessionId (sessions ex_db))"
    by (simp add: ex_env_def ex_db_def ex_session_def)
  note th = session_start_one_active_session [of ex_db ex_env ex_getTime 1768474800000 "''/p''"
        None None None None]
  note inv = th [THEN conjunct1, THEN mp, OF a, THEN conjunct1]
  note ss = th [THEN conjunct2, THEN mp, OF f, THEN conjunct1]
  note ga = th [THEN conjunct2, THEN mp, OF f, THEN conjunct2, THEN conjunct2, THEN conjunct1]
  show ?thesis
    unfolding ss ga using a f inv
    by (simp add: started_session_def abandoned_row_def ex_env_def ex_db_def ex_session_def)
qed


subsection \<open>Ranking\<close>

lemma knowledge_computeRelevanceScore [simp]:
  "knowledge (computeRelevanceScore getTime nowMs k cb) = k"
  by (simp add: computeRelevanceScore_def Let_def)

lemma session_scoreSession [simp]:
  "session (scoreSession getTime nowMs s cb) = s"
  by (simp add: scoreSession_def Let_def)

lemma mset_map_sort_desc: "mset (map h (sort_desc f xs)) = mset (map h xs)"
  by (simp only: mset_map mset_sort_desc)

text \<open>
  Claim C5. Ranking returns a permutation of its input, sorted by non-increasing score, and
  stable: the knowledge items (sessions) carried by the ranked list are, as a multiset, the
  input; each element's score is at least the score of every later element; and for every score
  value the elements with that score appear in the order in which the input has them.
\<close>

theorem ranking_sorted_stable_permutation:
  "mset (map knowledge (rankKnowledge getTime nowMs items cb)) = mset items
   \<and> sorted_wrt (\<lambda>x y. relevanceScore x \<ge> relevanceScore y)
        (rankKnowledge getTime nowMs items cb)
   \<and> (\<forall>v. filter (\<lambda>x. relevanceScore x = v) (rankKnowledge getTime nowMs items cb)
          = filter (\<lambda>x. relevanceScore x = v)
              (map (\<lambda>k. computeRelevanceScore getTime nowMs k cb) items))
   \<and> mset (map session (rankSessions getTime nowMs ss cb)) = mset ss
   \<and> sorted_wrt (\<lambda>x y. score x \<ge> score y) (rankSessions getTime nowMs ss cb)
   \<and> (\<forall>v. filter (\<lambda>x. score x = v) (rankSessions getTime nowMs ss cb)
          = filter (\<lambda>x. score x = v) (map (\<lambda>s. scoreSession getTime nowMs s cb) ss))"
proof -
  have k1: "mset (map knowledge (rankKnowledge getTime nowMs items cb)) = mset items"
    unfolding rankKnowledge_def mset_map_sort_desc by (simp add: o_def)
  have k2: "sorted_wrt (\<lambda>x y. relevanceScore x \<ge> relevanceScore y)
        (rankKnowledge getTime nowMs items cb)"
    unfolding rankKnowledge_def by (rule sorted_sort_desc)
  have k3: "\<forall>v. filter (\<lambda>x. relevanceScore x = v) (rankKnowledge getTime nowMs items cb)
          = filter (\<lambda>x. relevanceScore x = v)
              (map (\<lambda>k. computeRelevanceScore getTime nowMs k cb) items)"
    unfolding rankKnowledge_def by (intro allI) (rule sort_desc_stable)
  have s1: "mset (map session (rankSessions getTime nowMs ss cb)) = mset ss"
    unfolding rankSessions_def mset_map_sort_desc by (simp add: o_def)
  have s2: "sorted_wrt (\<lambda>x y. score x \<ge> score y) (rankSessions getTime nowMs ss cb)"
    unfolding rankSessions_def by (rule sorted_sort_desc)
  have s3: "\<forall>v. filter (\<lambda>x. score x = v) (rankSessions getTime nowMs ss cb)
          = filter (\<lambda>x. score x = v) (map (\<lambda>s. scoreSession getTime nowMs s cb) ss)"
    unfolding rankSessions_def by (intro allI) (rule sort_desc_stable)
  show ?thesis
    by (rule conjI [OF k1 conjI [OF k2 conjI [OF k3 conjI [OF s1 conjI [OF s2 s3]]]]])
qed

subsection \<open>Superseded knowledge\<close>

lemma filter_filter_imp:
  assumes "\<And>x. P x \<Longrightarrow> Q x"
  shows "filter P (filter Q xs) = filter P xs"
  using assms by (induction xs) auto

lemma find_filter_imp:
  assumes "\<And>x. P x \<Longrightarrow> Q x"
  shows "find P (filter Q xs) = find P xs"
  using assms by (induction xs) auto

lemma promoted_withoutSuperseded:
  "promoted_knowledge (withoutSuperseded db) =
     filter (\<lambda>k. supersededBy k = None) (promoted_knowledge db)"
  by (simp add: withoutSuperseded_def)

lemma getProjectKnowledge_invisible:
  "getProjectKnowledge (withoutSuperseded db) pp kt n = getProjectKnowledge db pp kt n"
  unfolding getProjectKnowledge_def promoted_withoutSuperseded
  by (subst filter_filter_imp) simp_all

lemma getUnsyncedKnowledge_invisible:
  "getUnsyncedKnowledge (withoutSuperseded db) pp = getUnsyncedKnowledge db pp"
  unfolding getUnsyncedKnowledge_def promoted_withoutSuperseded
  by (subst filter_filter_imp) simp_all

lemma getKnowledgeCount_invisible:
  "getKnowledgeCount (withoutSuperseded db) pp = getKnowledgeCount db pp"
  unfolding getKnowledgeCount_def promoted_withoutSuperseded
  by (subst filter_filter_imp) simp_all

lemma findDuplicates_invisible:
  "findDuplicates sha256 (withoutSuperseded db) pp ttl cont = findDuplicates sha256 db pp ttl cont"
  unfolding findDuplicates_def promoted_withoutSuperseded Let_def
  by (subst find_filter_imp, simp) (subst filter_filter_imp, simp_all)


lemma find_SomeD: "find P xs = Some x \<Longrightarrow> P x \<and> x \<in> set xs"
  by (induction xs) (auto split: if_splits)

lemma in_take_sort_filter:
  "x \<in> set (take n (sort_desc f (filter P xs))) \<Longrightarrow> P x"
  by (auto dest!: in_set_takeD simp: set_sort_desc)

lemma getProjectKnowledge_not_superseded:
  "filter (\<lambda>k. supersededBy k \<noteq> None) (getProjectKnowledge db pp kt n) = []"
  unfolding filter_empty_conv getProjectKnowledge_def
  by (intro ballI) (drule in_take_sort_filter, simp)

lemma getUnsyncedKnowledge_not_superseded:
  "filter (\<lambda>k. supersededBy k \<noteq> None) (getUnsyncedKnowledge db pp) = []"
  unfolding filter_empty_conv getUnsyncedKnowledge_def
  by (intro ballI) simp

lemma findDuplicates_not_superseded:
  "filter (\<lambda>c. supersededBy (existingKnowledge c) \<noteq> None)
     (findDuplicates sha256 db pp ttl cont) = []"
proof (cases "find (\<lambda>k. k_projectPath k = pp
                      \<and> contentHash k = Some (computeContentHash sha256 cont)
                      \<and> supersededBy k = None) (promoted_knowledge db)")
  case None
  then show ?thesis
    unfolding findDuplicates_def Let_def filter_empty_conv
    by (simp add: set_sort_desc)
next
  case (Some k)
  from find_SomeD [OF Some] have "supersededBy k = None"
    by (elim conjE)
  with Some show ?thesis
    unfolding findDuplicates_def Let_def by simp
qed

lemma find_key_map:
  assumes "\<And>x. key (g x) = key x"
  shows "find (\<lambda>x. key x = kid) (map g xs) = map_option g (find (\<lambda>x. key x = kid) xs)"
  using assms by (induction xs) auto

lemma getKnowledgeById_markSuperseded:
  "getKnowledgeById (markSuperseded db old new) kid =
     map_option (\<lambda>k. if knowledgeId k = old then k\<lparr>supersededBy := Some new\<rparr> else k)
       (getKnowledgeById db kid)"
  unfolding getKnowledgeById_def markSuperseded_def
  by (simp add: find_key_map [where key = knowledgeId])

text \<open>
  Claim C9 as stated fails for the point lookup: \<open>getKnowledgeById\<close> selects by identifier
  alone and returns an item that has been superseded.
\<close>

theorem superseded_point_lookup_counterexample:
  "map_option supersededBy (getKnowledgeById ex_superseded_db ''k1'') = Some (Some ''k2'')"
  by (simp add: getKnowledgeById_def ex_superseded_db_def ex_knowledge_def)

text \<open>
  Claim C9, amended. A knowledge item whose superseded-by field is set is excluded from
  \<open>getProjectKnowledge\<close>, \<open>getUnsyncedKnowledge\<close>, \<open>getKnowledgeCount\<close> and
  \<open>findDuplicates\<close>: each returns what it returns on the store with the superseded items
  removed, and none of the items returned is superseded. The point lookup \<open>getKnowledgeById\<close>
  selects by identifier alone; the item stays stored, and after \<open>markSuperseded\<close> the lookup
  returns it with nothing but its superseded-by field changed.
\<close>

theorem superseded_excluded_from_listings:
  "getProjectKnowledge (withoutSuperseded db) pp kt n = getProjectKnowledge db pp kt n
   \<and> getUnsyncedKnowledge (withoutSuperseded db) pp = getUnsyncedKnowledge db pp
   \<and> getKnowledgeCount (withoutSuperseded db) pp = getKnowledgeCount db pp
   \<and> findDuplicates sha256 (withoutSuperseded db) pp ttl cont
       = findDuplicates sha256 db pp ttl cont
   \<and> filter (\<lambda>k. supersededBy k \<noteq> None) (getProjectKnowledge db pp kt n) = []
   \<and> filter (\<lambda>k. supersededBy k \<noteq> None) (getUnsyncedKnowledge db pp) = []
   \<and> filter (\<lambda>c. supersededBy (existingKnowledge c) \<noteq> None)
       (findDuplicates sha256 db pp ttl cont) = []
   \<and> getKnowledgeById db kid = find (\<lambda>k. knowledgeId k = kid) (promoted_knowledge db)
   \<and> getKnowledgeById (markSuperseded db old new) kid =
       map_option (\<lambda>k. if knowledgeId k = old then k\<lparr>supersededBy := Some new\<rparr> else k)
         (getKnowledgeById db kid)"
  by (intro conjI getProjectKnowledge_invisible getUnsyncedKnowledge_invisible
        getKnowledgeCount_invisible findDuplicates_invisible getProjectKnowledge_not_superseded
        getUnsyncedKnowledge_not_superseded findDuplicates_not_superseded
        getKnowledgeById_markSuperseded getKnowledgeById_def)

subsection \<open>Relevance scores\<close>


lemma computeBranchWeight_spec:
  "computeBranchWeight b cb = (if b = Some [] then 0.5 else spec_branchWeight b cb)"
  by (cases b) (simp_all add: computeBranchWeight_def spec_branchWeight_def)

lemma computeRecencyWeight_spec:
  "computeRecencyWeight getTime nowMs t = spec_recencyWeight (ageDays getTime nowMs t)"
  by (simp add: computeRecencyWeight_def spec_recencyWeight_def ageDays_def Let_def)

text \<open>
  Claim C4 as stated fails for the empty branch name: the scoring code treats it as no branch
  (weight 0.5) even where it equals the current branch, for which the claim gives 1.0. A session
  started an hour ago on the branch \<open>''\<close> scores 0.75 against the current branch \<open>''\<close>,
  not 1.
\<close>

theorem empty_branch_weight_counterexample:
  "computeBranchWeight (Some []) [] = 0.5
   \<and> spec_branchWeight (Some []) [] = 1
   \<and> score (scoreSession ex_getTime 1768474800000 (ex_session\<lparr>branch := []\<rparr>) []) = 0.75
   \<and> spec_branchWeight (Some (branch (ex_session\<lparr>branch := []\<rparr>))) [] * 0.5
       + spec_recencyWeight (ageDays ex_getTime 1768474800000 (startedAt ex_session)) * 0.5 = 1"
  by (simp add: computeBranchWeight_def spec_branchWeight_def scoreSession_def
        computeRecencyWeight_def spec_recencyWeight_def ageDays_def ex_session_def ex_getTime_def
        Let_def)

text \<open>
  Claim C4, amended. The relevance score of a knowledge item is
  \<open>branchWeight * 0.4 + recencyWeight * 0.4 + (usageWeight - 1.0) * 0.2 + 0.2\<close> and the score
  of a session is \<open>branchWeight * 0.5 + recencyWeight * 0.5\<close>, where the branch weight is 0.5
  when the item carries no branch or the empty branch name and otherwise 1.0 for the current
  branch, 0.7 for \<open>main\<close> and \<open>master\<close> and 0.3 for any other branch; the recency weight
  is the step function 1.0, 0.8, 0.5, 0.3 of the age in days (below 1, 7, 30, otherwise); and the
  usage weight is \<open>1.0 + ln (usageCount + 1) * 0.1\<close>.
\<close>

theorem relevance_score_formula:
  "relevanceScore (computeRelevanceScore getTime nowMs k cb) =
       (if k_branch k = Some [] then 0.5 else spec_branchWeight (k_branch k) cb) * 0.4
     + spec_recencyWeight (ageDays getTime nowMs (createdAt k)) * 0.4
     + (spec_usageWeight (case usageCount k of None \<Rightarrow> 0 | Some n \<Rightarrow> n) - 1.0) * 0.2 + 0.2
   \<and> branchWeight (computeRelevanceScore getTime nowMs k cb) =
       (if k_branch k = Some [] then 0.5 else spec_branchWeight (k_branch k) cb)
   \<and> recencyWeight (computeRelevanceScore getTime nowMs k cb) =
       spec_recencyWeight (ageDays getTime nowMs (createdAt k))
   \<and> score (scoreSession getTime nowMs s cb) =
       (if branch s = [] then 0.5 else spec_branchWeight (Some (branch s)) cb) * 0.5
     + spec_recencyWeight (ageDays getTime nowMs (startedAt s)) * 0.5"
  unfolding computeRelevanceScore_def scoreSession_def Let_def computeBranchWeight_spec
    computeRecencyWeight_spec
  by (simp add: computeUsageWeight_def spec_usageWeight_def)


subsection \<open>Migrations\<close>

lemma sort_desc_hd_max:
  assumes "sort_desc f xs = y # ys" and "x \<in> set xs"
  shows "f x \<le> f y"
proof -
  have "sorted_wrt (\<lambda>a b. f a \<ge> f b) (y # ys)"
    using sorted_sort_desc [of f xs] assms(1) by simp
  moreover have "x \<in> set (y # ys)"
    using assms set_sort_desc [of f xs] by simp
  ultimately show ?thesis by auto
qed

lemma getSchemaVersion_max:
  assumes "version_log st = Some rows" and "r \<in> set rows"
  shows "r \<le> getSchemaVersion st"
proof (cases "sort_desc id rows")
  case Nil
  then have "length rows = 0" using length_sort_desc [of id rows] by simp
  with assms(2) show ?thesis by simp
next
  case (Cons y ys)
  from sort_desc_hd_max [OF Cons assms(2)] have "r \<le> y" by simp
  with Cons assms(1) show ?thesis by (simp add: getSchemaVersion_def)
qed

lemma migrate_failure:
  "apply_batches exec vs (schema st) = None \<Longrightarrow> \<exists>e. migrate exec vs st = Inl e"
proof (induction vs arbitrary: st)
  case Nil
  then show ?case by simp
next
  case (Cons v vs)
  show ?case
  proof (cases "MIGRATIONS v")
    case None
    then show ?thesis by simp
  next
    case (Some sql)
    show ?thesis
    proof (cases "exec sql (schema st)")
      case None
      with Some show ?thesis by simp
    next
      case (Some sch1)
      with \<open>MIGRATIONS v = Some sql\<close> Cons.prems
      have rest: "apply_batches exec vs sch1 = None" by simp
      show ?thesis
      proof (cases "v \<in> set (logged_versions st)")
        case True
        with Some \<open>MIGRATIONS v = Some sql\<close> show ?thesis
          by (simp add: logged_versions_def Let_def)
      next
        case False
        have "\<exists>e. migrate exec vs
            (st\<lparr>schema := sch1, version_log := Some (logged_versions st @ [v])\<rparr>) = Inl e"
          by (rule Cons.IH) (simp add: rest)
        with False Some \<open>MIGRATIONS v = Some sql\<close> show ?thesis
          by (simp add: logged_versions_def Let_def)
      qed
    qed
  qed
qed

lemma migrate_success:
  assumes "apply_batches exec vs (schema st) = Some sch'"
    and "sorted_wrt (<) vs"
    and "\<forall>r\<in>set rows. \<forall>v\<in>set vs. r < v"
    and "version_log st = Some rows"
  shows "migrate exec vs st = Inr (st\<lparr>schema := sch', version_log := Some (rows @ vs)\<rparr>)"
  using assms
proof (induction vs arbitrary: st rows)
  case Nil
  then show ?case by simp
next
  case (Cons v vs)
  from Cons.prems(1) obtain sql where sql: "MIGRATIONS v = Some sql"
    by (cases "MIGRATIONS v") simp_all
  from Cons.prems(1) sql obtain sch1 where sch1: "exec sql (schema st) = Some sch1"
    by (cases "exec sql (schema st)") simp_all
  from Cons.prems(1) sql sch1 have rest: "apply_batches exec vs sch1 = Some sch'" by simp
  from Cons.prems(3) have fresh: "v \<notin> set rows" by auto
  let ?st = "st\<lparr>schema := sch1, version_log := Some (rows @ [v])\<rparr>"
  have step: "migrate exec (v # vs) st = migrate exec vs ?st"
    using sql sch1 fresh Cons.prems(4) by (simp add: Let_def)
  have "migrate exec vs ?st = Inr (?st\<lparr>schema := sch', version_log := Some ((rows @ [v]) @ vs)\<rparr>)"
  proof (rule Cons.IH)
    show "apply_batches exec vs (schema ?st) = Some sch'" using rest by simp
    show "sorted_wrt (<) vs" using Cons.prems(2) by simp
    show "\<forall>r\<in>set (rows @ [v]). \<forall>w\<in>set vs. r < w"
      using Cons.prems(2,3) by auto
    show "version_log ?st = Some (rows @ [v])" by simp
  qed
  with step show ?case by simp
qed

text \<open>
  Claim C1 as stated fails: the loop over the versions runs inside a single transaction. On a new
  store, when the batch of version 2 throws after the batch of version 1 has run, the whole run
  is rolled back: the version log is empty and migration 1 is not logged, although its batch
  succeeded.
\<close>

theorem migration_failure_rolls_back_counterexample:
  "getSchemaVersion ex_fresh_store = 0
   \<and> failing_exec ''sessions, session_events'' (schema ex_fresh_store)
       = Some [''sessions, session_events'']
   \<and> runMigrations failing_exec ex_fresh_store
       = (\<lparr>version_log = Some [], schema = []\<rparr>, Some (ExecFailed 2))"
  by (simp add: runMigrations_def getSchemaVersion_def ex_fresh_store_def failing_exec_def
        MIGRATIONS_def CURRENT_SCHEMA_VERSION_def Let_def upt_rec)

text \<open>
  Claim C1, amended. Opening a store whose version log reads \<open>v\<close> runs the batches of the
  versions \<open>v + 1 .. 3\<close> in ascending order inside one transaction for the whole run. If every
  batch succeeds, the store holds the schema they produce in that order and the version log is
  extended by \<open>v + 1 .. 3\<close>, in order. If one of them fails, the run reports an error and the
  store is as it was before the run (with its version table created): no migration of the run
  is committed or logged, and none is applied in part.
\<close>

theorem migrations_all_or_nothing:
  "(case apply_batches exec [getSchemaVersion st + 1..<Suc CURRENT_SCHEMA_VERSION] (schema st) of
      Some sch' \<Rightarrow>
        runMigrations exec st =
          (\<lparr>version_log =
              Some (logged_versions st @ [getSchemaVersion st + 1..<Suc CURRENT_SCHEMA_VERSION]),
            schema = sch'\<rparr>, None)
    | None \<Rightarrow>
        fst (runMigrations exec st) = st\<lparr>version_log := Some (logged_versions st)\<rparr>
        \<and> snd (runMigrations exec st) \<noteq> None)"
proof -
  let ?st0 = "st\<lparr>version_log := Some (logged_versions st)\<rparr>"
  let ?vs = "[getSchemaVersion st + 1..<Suc CURRENT_SCHEMA_VERSION]"
  have v0: "getSchemaVersion ?st0 = getSchemaVersion st"
    by (cases "version_log st") (simp_all add: getSchemaVersion_def logged_versions_def)
  have run: "runMigrations exec st =
      (case migrate exec ?vs ?st0 of Inl err \<Rightarrow> (?st0, Some err) | Inr st1 \<Rightarrow> (st1, None))"
    unfolding runMigrations_def Let_def logged_versions_def [symmetric] v0 by simp
  show ?thesis
  proof (cases "apply_batches exec ?vs (schema st)")
    case None
    then have "apply_batches exec ?vs (schema ?st0) = None" by simp
    then obtain e where "migrate exec ?vs ?st0 = Inl e"
      using migrate_failure by blast
    with None show ?thesis by (simp add: run)
  next
    case (Some sch')
    have "migrate exec ?vs ?st0 =
        Inr (?st0\<lparr>schema := sch', version_log := Some (logged_versions st @ ?vs)\<rparr>)"
    proof (rule migrate_success)
      show "apply_batches exec ?vs (schema ?st0) = Some sch'" using Some by simp
      show "sorted_wrt (<) ?vs" by (rule sorted_wrt_upt)
      show "\<forall>r\<in>set (logged_versions st). \<forall>v\<in>set ?vs. r < v"
      proof (intro ballI)
        fix r v assume r: "r \<in> set (logged_versions st)" and v: "v \<in> set ?vs"
        have "r \<le> getSchemaVersion ?st0"
          by (rule getSchemaVersion_max [of ?st0 "logged_versions st"]) (simp_all add: r)
        then have "r \<le> getSchemaVersion st" by (simp only: v0)
        moreover from v have "getSchemaVersion st + 1 \<le> v"
          by (simp only: set_upt atLeastLessThan_iff)
        ultimately show "r < v" by linarith
      qed
      show "version_log ?st0 = Some (logged_versions st)" by simp
    qed
    with Some show ?thesis by (simp add: run)
  qed
qed


subsection \<open>The distance matrix\<close>

lemma editDistance_Nil2 [simp]: "editDistance xs [] = length xs"
  by (cases xs) simp_all

lemma arr_set_end [simp]: "arr_set xs (length xs) v = xs @ [v]"
  by (simp add: arr_set_def)

lemma arr_set_inside: "i < length xs \<Longrightarrow> arr_set xs i v = xs[i := v]"
  by (simp add: arr_set_def)

lemma fold_upt_Suc: "k \<le> l \<Longrightarrow> fold f [k..<Suc l] s = f l (fold f [k..<l] s)"
  by simp

lemma init_rows: "fold (\<lambda>i mt. arr_set mt i [i]) [0..<k] [] = map (\<lambda>i. [i]) [0..<k]"
  by (induction k) (simp_all add: arr_set_def)

lemma first_row:
  assumes "0 < length mt" and "mt ! 0 = [0]"
  shows "fold (\<lambda>j mt. mt[0 := arr_set (mt ! 0) j j]) [0..<Suc k] mt = mt[0 := [0..<Suc k]]"
proof (induction k)
  case 0
  show ?case using assms by (simp add: arr_set_inside)
next
  case (Suc k)
  have "arr_set [0..<Suc k] (Suc k) (Suc k) = [0..<Suc (Suc k)]"
    using arr_set_end [of "[0..<Suc k]" "Suc k"] by simp
  with Suc assms(1) show ?case
    by (simp only: fold_upt_Suc le0 nth_list_update_eq list_update_overwrite)
qed

lemma prefixDistance_row0: "j \<le> length a \<Longrightarrow> prefixDistance a b 0 j = j"
  by (simp add: prefixDistance_def)

lemma prefixDistance_col0: "i \<le> length b \<Longrightarrow> prefixDistance a b i 0 = i"
  by (simp add: prefixDistance_def)

lemma prefixDistance_Suc:
  assumes "i < length b" and "j < length a"
  shows "prefixDistance a b (Suc i) (Suc j) =
     (if b ! i = a ! j then prefixDistance a b i j
      else min (prefixDistance a b i j + 1)
             (min (prefixDistance a b (Suc i) j + 1) (prefixDistance a b i (Suc j) + 1)))"
proof -
  have ra: "rev (take (Suc j) a) = a ! j # rev (take j a)"
    using assms(2) by (simp add: take_Suc_conv_app_nth)
  have rb: "rev (take (Suc i) b) = b ! i # rev (take i b)"
    using assms(1) by (simp add: take_Suc_conv_app_nth)
  show ?thesis
    unfolding prefixDistance_def ra rb by (auto simp: min_def)
qed


lemma length_filledMatrix [simp]: "length (filledMatrix a b i) = Suc (length b)"
  by (simp add: filledMatrix_def)

lemma filledMatrix_nth:
  "i' \<le> length b \<Longrightarrow> filledMatrix a b i ! i' =
     (if i' \<le> i then map (prefixDistance a b i') [0..<Suc (length a)] else [i'])"
  unfolding filledMatrix_def by (subst nth_map) (simp_all del: upt_Suc)

lemma length_partialMatrix [simp]: "length (partialMatrix a b i j) = Suc (length b)"
  by (simp add: partialMatrix_def)

lemma partialMatrix_row:
  "i \<le> length b \<Longrightarrow> partialMatrix a b i j ! i = map (prefixDistance a b i) [0..<Suc j]"
  by (simp add: partialMatrix_def del: upt_Suc)

lemma partialMatrix_prev:
  "Suc i \<le> length b \<Longrightarrow>
     partialMatrix a b (Suc i) j ! i = map (prefixDistance a b i) [0..<Suc (length a)]"
  by (simp add: partialMatrix_def filledMatrix_nth del: upt_Suc)

lemma map_prefixDistance_row0:
  "map (prefixDistance a b 0) [0..<Suc (length a)] = [0..<Suc (length a)]"
  by (rule map_idI) (simp add: prefixDistance_row0 del: upt_Suc)

lemma matrix1_eq:
  "fold (\<lambda>j mt. mt[0 := arr_set (mt ! 0) j j]) [0..<Suc (length a)]
     (fold (\<lambda>i mt. arr_set mt i [i]) [0..<Suc (length b)] []) = filledMatrix a b 0"
proof -
  let ?m0 = "map (\<lambda>i. [i]) [0..<Suc (length b)]"
  have "fold (\<lambda>j mt. mt[0 := arr_set (mt ! 0) j j]) [0..<Suc (length a)] ?m0
      = ?m0[0 := [0..<Suc (length a)]]"
    by (rule first_row) (simp_all del: upt_Suc add: upt_conv_Cons)
  moreover have "?m0[0 := [0..<Suc (length a)]] = filledMatrix a b 0"
  proof (rule nth_equalityI)
    show "length (?m0[0 := [0..<Suc (length a)]]) = length (filledMatrix a b 0)" by simp
  next
    fix i assume "i < length (?m0[0 := [0..<Suc (length a)]])"
    then have i: "i \<le> length b" by simp
    show "?m0[0 := [0..<Suc (length a)]] ! i = filledMatrix a b 0 ! i"
    proof (cases i)
      case 0
      then show ?thesis
        by (simp add: filledMatrix_nth map_prefixDistance_row0 del: upt_Suc)
    next
      case (Suc i')
      with i have "?m0 ! i = [i]" by (subst nth_map) (simp_all del: upt_Suc)
      with Suc i show ?thesis by (simp add: filledMatrix_nth del: upt_Suc)
    qed
  qed
  ultimately show ?thesis by (simp only: init_rows)
qed

lemma start_row:
  assumes "Suc i \<le> length b"
  shows "partialMatrix a b (Suc i) 0 = filledMatrix a b i"
proof -
  have r: "filledMatrix a b i ! Suc i = [Suc i]"
    using assms by (simp add: filledMatrix_nth)
  have c: "map (prefixDistance a b (Suc i)) [0..<Suc 0] = [Suc i]"
    using assms by (simp add: prefixDistance_col0)
  have "partialMatrix a b (Suc i) 0
      = (filledMatrix a b i)[Suc i := filledMatrix a b i ! Suc i]"
    unfolding partialMatrix_def by (simp only: diff_Suc_1 r c)
  then show ?thesis by (simp only: list_update_id)
qed

lemma end_row:
  assumes "Suc i \<le> length b"
  shows "partialMatrix a b (Suc i) (length a) = filledMatrix a b (Suc i)"
proof (rule nth_equalityI)
  show "length (partialMatrix a b (Suc i) (length a)) = length (filledMatrix a b (Suc i))"
    by simp
next
  fix k assume "k < length (partialMatrix a b (Suc i) (length a))"
  then have k: "k \<le> length b" by simp
  show "partialMatrix a b (Suc i) (length a) ! k = filledMatrix a b (Suc i) ! k"
  proof (cases "k = Suc i")
    case True
    with k show ?thesis by (simp add: partialMatrix_row filledMatrix_nth del: upt_Suc)
  next
    case False
    with k show ?thesis
      by (auto simp add: partialMatrix_def filledMatrix_nth simp del: upt_Suc)
  qed
qed

lemma cell_value:
  assumes "Suc i \<le> length b" and "Suc j \<le> length a"
  shows "levenshteinCell a b (partialMatrix a b (Suc i) j) (Suc i) (Suc j)
     = prefixDistance a b (Suc i) (Suc j)"
proof -
  let ?M = "partialMatrix a b (Suc i) j"
  have d: "?M ! i ! j = prefixDistance a b i j"
    using assms by (simp add: partialMatrix_prev del: upt_Suc)
  have u: "?M ! i ! Suc j = prefixDistance a b i (Suc j)"
    using assms by (simp add: partialMatrix_prev del: upt_Suc)
  have l: "?M ! Suc i ! j = prefixDistance a b (Suc i) j"
    using assms by (simp add: partialMatrix_row del: upt_Suc)
  show ?thesis
    unfolding levenshteinCell_def using assms
    by (simp only: diff_Suc_1 d u l prefixDistance_Suc Suc_le_eq)
qed

lemma inner_step:
  assumes "Suc i \<le> length b" and "Suc j \<le> length a"
  shows "(partialMatrix a b (Suc i) j)[Suc i :=
       arr_set (partialMatrix a b (Suc i) j ! Suc i) (Suc j)
         (levenshteinCell a b (partialMatrix a b (Suc i) j) (Suc i) (Suc j))]
     = partialMatrix a b (Suc i) (Suc j)"
proof -
  have "arr_set (map (prefixDistance a b (Suc i)) [0..<Suc j]) (Suc j)
          (prefixDistance a b (Suc i) (Suc j))
        = map (prefixDistance a b (Suc i)) [0..<Suc (Suc j)]"
    using arr_set_end [of "map (prefixDistance a b (Suc i)) [0..<Suc j]"] by simp
  then show ?thesis
    using assms
    by (simp only: cell_value partialMatrix_row)
       (simp add: partialMatrix_def del: upt_Suc)
qed

lemma inner_loop:
  assumes "Suc i \<le> length b" and "k \<le> length a"
  shows "fold (\<lambda>j mt. mt[Suc i := arr_set (mt ! Suc i) j (levenshteinCell a b mt (Suc i) j)])
           [1..<Suc k] (partialMatrix a b (Suc i) 0) = partialMatrix a b (Suc i) k"
  using assms(2)
proof (induction k)
  case 0
  show ?case by simp
next
  case (Suc k)
  then have "fold (\<lambda>j mt. mt[Suc i := arr_set (mt ! Suc i) j (levenshteinCell a b mt (Suc i) j)])
           [1..<Suc k] (partialMatrix a b (Suc i) 0) = partialMatrix a b (Suc i) k"
    by simp
  moreover have "(1::nat) \<le> Suc k" by simp
  ultimately show ?case
    using inner_step [OF assms(1) Suc.prems]
    by (simp only: fold_upt_Suc)
qed

lemma outer_loop:
  assumes "k \<le> length b"
  shows "fold (\<lambda>i. fold (\<lambda>j mt. mt[i := arr_set (mt ! i) j (levenshteinCell a b mt i j)])
                     [1..<Suc (length a)])
           [1..<Suc k] (filledMatrix a b 0) = filledMatrix a b k"
  using assms
proof (induction k)
  case 0
  show ?case by simp
next
  case (Suc k)
  then have "fold (\<lambda>i. fold (\<lambda>j mt. mt[i := arr_set (mt ! i) j (levenshteinCell a b mt i j)])
                     [1..<Suc (length a)])
           [1..<Suc k] (filledMatrix a b 0) = filledMatrix a b k"
    by simp
  moreover have "(1::nat) \<le> Suc k" by simp
  moreover have "fold (\<lambda>j mt. mt[Suc k := arr_set (mt ! Suc k) j
                     (levenshteinCell a b mt (Suc k) j)])
                   [1..<Suc (length a)] (filledMatrix a b k) = filledMatrix a b (Suc k)"
    using inner_loop [OF Suc.prems order_refl] start_row [OF Suc.prems] end_row [OF Suc.prems]
    by (simp only:)
  ultimately show ?case
    by (simp only: fold_upt_Suc)
qed

lemma levenshteinDistance_rev:
  "levenshteinDistance a b = editDistance (rev a) (rev b)"
proof -
  have "levenshteinDistance a b = filledMatrix a b (length b) ! length b ! length a"
    unfolding levenshteinDistance_def Let_def matrix1_eq
    by (simp only: outer_loop [OF order_refl])
  also have "\<dots> = prefixDistance a b (length b) (length a)"
    by (simp add: filledMatrix_nth del: upt_Suc)
  finally show ?thesis by (simp add: prefixDistance_def)
qed


subsection \<open>Edit distance\<close>

lemma editDistance_le_max: "editDistance xs ys \<le> max (length xs) (length ys)"
  by (induction xs ys rule: editDistance.induct) auto

lemma editDistance_eq_0_iff: "editDistance xs ys = 0 \<longleftrightarrow> xs = ys"
  by (induction xs ys rule: editDistance.induct) auto

lemma editDistance_single_snoc:
  "editDistance [x] (ys @ [y]) =
     (if x = y then length ys else 1 + min (length ys) (editDistance [x] ys))"
  by (induction ys) (auto simp: min_def)

lemma editDistance_snoc_single:
  "editDistance (xs @ [x]) [y] =
     (if x = y then length xs else 1 + min (length xs) (editDistance xs [y]))"
  by (induction xs) (auto simp: min_def)

lemma min_regroup:
  fixes A B C p1 p2 p3 p4 p5 p6 :: nat
  shows "min (min A (min p1 p2)) (min (min B (min p3 p4)) (min C (min p5 p6)))
       = min (min A (min B C)) (min (min p1 (min p3 p5)) (min p2 (min p4 p6)))"
  by (rule antisym) (simp_all add: min_le_iff_disj)

lemma editDistance_snoc:
  "editDistance (xs @ [x]) (ys @ [y]) =
     (if x = y then editDistance xs ys
      else 1 + min (editDistance xs ys)
                 (min (editDistance (xs @ [x]) ys) (editDistance xs (ys @ [y]))))"
proof (induction xs ys rule: editDistance.induct)
  case (1 ys)
  show ?case by (simp add: editDistance_single_snoc) (simp add: min_def)
next
  case (2 u xs)
  show ?case using editDistance_snoc_single [of "u # xs" x y]
    by (simp del: editDistance.simps(3)) (simp add: min_def)
next
  case (3 u xs v ys)
  show ?case
  proof (cases "u = v")
    case True
    from "3.IH"(1) [OF True] True show ?thesis by simp
  next
    case False
    show ?thesis
    proof (cases "x = y")
      case True
      from "3.IH"(2) [OF False] "3.IH"(3) [OF False] "3.IH"(4) [OF False] True False
      show ?thesis by simp
    next
      case xy: False
      define A where "A = editDistance xs ys"
      define B where "B = editDistance (u # xs) ys"
      define C where "C = editDistance xs (v # ys)"
      define p1 where "p1 = editDistance (xs @ [x]) ys"
      define p2 where "p2 = editDistance xs (ys @ [y])"
      define p3 where "p3 = editDistance ((u # xs) @ [x]) ys"
      define p4 where "p4 = editDistance (u # xs) (ys @ [y])"
      define p5 where "p5 = editDistance (xs @ [x]) (v # ys)"
      define p6 where "p6 = editDistance xs ((v # ys) @ [y])"
      have i1: "editDistance (xs @ [x]) (ys @ [y]) = Suc (min A (min p1 p2))"
        using "3.IH"(2) [OF False] xy by (simp add: A_def p1_def p2_def)
      have i2: "editDistance ((u # xs) @ [x]) (ys @ [y]) = Suc (min B (min p3 p4))"
        using "3.IH"(3) [OF False] xy by (simp add: B_def p3_def p4_def)
      have i3: "editDistance (xs @ [x]) ((v # ys) @ [y]) = Suc (min C (min p5 p6))"
        using "3.IH"(4) [OF False] xy by (simp add: C_def p5_def p6_def)
      have l: "editDistance ((u # xs) @ [x]) ((v # ys) @ [y]) =
          Suc (min (editDistance (xs @ [x]) (ys @ [y]))
                (min (editDistance ((u # xs) @ [x]) (ys @ [y]))
                     (editDistance (xs @ [x]) ((v # ys) @ [y]))))"
        using False by simp
      have r0: "editDistance (u # xs) (v # ys) = Suc (min A (min B C))"
        using False by (simp add: A_def B_def C_def)
      have r1: "editDistance ((u # xs) @ [x]) (v # ys) = Suc (min p1 (min p3 p5))"
        using False by (simp add: p1_def p3_def p5_def)
      have r2: "editDistance (u # xs) ((v # ys) @ [y]) = Suc (min p2 (min p4 p6))"
        using False by (simp add: p2_def p4_def p6_def)
      have "editDistance ((u # xs) @ [x]) ((v # ys) @ [y]) =
          Suc (Suc (min (min A (min p1 p2)) (min (min B (min p3 p4)) (min C (min p5 p6)))))"
        by (simp only: l i1 i2 i3 min_Suc_Suc)
      also have "\<dots> =
          Suc (Suc (min (min A (min B C)) (min (min p1 (min p3 p5)) (min p2 (min p4 p6)))))"
        by (simp only: min_regroup)
      also have "\<dots> = 1 + min (editDistance (u # xs) (v # ys))
          (min (editDistance ((u # xs) @ [x]) (v # ys)) (editDistance (u # xs) ((v # ys) @ [y])))"
        by (simp only: r0 r1 r2 min_Suc_Suc plus_1_eq_Suc)
      finally show ?thesis using xy by (simp only: if_False)
    qed
  qed
qed

lemma editDistance_rev: "editDistance (rev xs) (rev ys) = editDistance xs ys"
  by (induction xs ys rule: editDistance.induct) (simp_all add: editDistance_snoc)


lemma editDistance_same [simp]: "editDistance xs xs = 0"
  by (simp add: editDistance_eq_0_iff)

lemma levenshteinDistance_editDistance:
  "levenshteinDistance a b = editDistance a b"
  by (simp only: levenshteinDistance_rev editDistance_rev)

subsection \<open>Normalization\<close>

lemma isWhitespace_all: "\<forall>c. isWhitespace c = spec_isSpace c"
  by code_simp

lemma toLowerChar_all:
  "\<forall>c. toLowerChar c = (if spec_isCapital c then char_of (of_char c + 0x20 :: nat) else c)"
  by code_simp

lemma spec_isSpace_eq: "spec_isSpace = isWhitespace"
  by (rule ext) (simp only: isWhitespace_all)

lemma toLowerChar_eq:
  "toLowerChar = (\<lambda>c. if spec_isCapital c then char_of (of_char c + 0x20 :: nat) else c)"
  by (rule ext) (simp only: toLowerChar_all)

lemma toLowerCase_spec: "toLowerCase s = spec_lowerCased s"
  by (simp only: toLowerCase_def spec_lowerCased_def toLowerChar_eq)

lemma isWhitespace_space [simp]: "isWhitespace (CHR '' '')"
  by (simp add: isWhitespace_def)

lemma words_nonempty: "w \<in> set (spec_words s) \<Longrightarrow> w \<noteq> []"
  by (induction s arbitrary: w) (auto split: if_splits list.splits)

lemma joined_Nil_iff: "\<forall>w\<in>set ws. w \<noteq> [] \<Longrightarrow> spec_joined ws = [] \<longleftrightarrow> ws = []"
  by (induction ws rule: spec_joined.induct) auto

lemma joined_words_Nil_iff: "spec_joined (spec_words s) = [] \<longleftrightarrow> spec_words s = []"
  by (rule joined_Nil_iff) (simp add: words_nonempty)

lemma words_dropWhile: "spec_words (dropWhile spec_isSpace s) = spec_words s"
  by (induction s) auto

lemma words_start: "s \<noteq> [] \<Longrightarrow> \<not> spec_isSpace (hd s) \<Longrightarrow> spec_words s \<noteq> []"
  by (cases s) (auto split: list.splits)

lemma joined_Cons_Cons: "spec_joined ((c # w) # rest) = c # spec_joined (w # rest)"
  by (cases rest) auto

lemma joined_single_Cons:
  "spec_joined ([c] # ws) = c # (if ws = [] then [] else CHR '' '' # spec_joined ws)"
  by (cases ws) auto

lemma trimEnd_Nil [simp]: "trimEnd [] = []"
  by (simp add: trimEnd_def)

lemma trimEnd_Cons:
  "trimEnd (c # x) = (if isWhitespace c \<and> trimEnd x = [] then [] else c # trimEnd x)"
proof (cases "\<forall>y\<in>set (rev x). isWhitespace y")
  case True
  then have "dropWhile isWhitespace (rev x @ [c]) = dropWhile isWhitespace [c]"
    by (intro dropWhile_append2) auto
  moreover from True have "dropWhile isWhitespace (rev x) = []"
    by (simp add: dropWhile_eq_Nil_conv)
  ultimately show ?thesis by (simp add: trimEnd_def)
next
  case False
  then obtain y where "y \<in> set (rev x)" "\<not> isWhitespace y" by blast
  then have a: "dropWhile isWhitespace (rev x @ [c]) = dropWhile isWhitespace (rev x) @ [c]"
    by (rule dropWhile_append1)
  from False have "dropWhile isWhitespace (rev x) \<noteq> []"
    by (simp add: dropWhile_eq_Nil_conv)
  with a show ?thesis by (simp add: trimEnd_def)
qed

lemma trimEnd_runs:
  "trimEnd (replaceWhitespaceRuns s) =
     (case s of [] \<Rightarrow> []
      | c # cs \<Rightarrow> if isWhitespace c
                  then (if spec_words s = [] then [] else CHR '' '' # spec_joined (spec_words s))
                  else spec_joined (spec_words s))"
proof (induction s rule: replaceWhitespaceRuns.induct)
  case 1
  show ?case by simp
next
  case (2 c cs)
  show ?case
  proof (cases "isWhitespace c")
    case True
    let ?d = "dropWhile isWhitespace cs"
    have w: "spec_words (c # cs) = spec_words ?d"
      using True by (simp add: spec_isSpace_eq words_dropWhile [unfolded spec_isSpace_eq])
    have clean: "?d = [] \<or> \<not> isWhitespace (hd ?d)"
      using hd_dropWhile [of isWhitespace cs] by blast
    have "trimEnd (replaceWhitespaceRuns ?d) = spec_joined (spec_words ?d)"
    proof (cases ?d)
      case Nil
      show ?thesis unfolding Nil by simp
    next
      case (Cons e es)
      with clean have "\<not> isWhitespace e" by simp
      with 2(1) [OF True, unfolded Cons] show ?thesis unfolding Cons by simp
    qed
    then have "trimEnd (CHR '' '' # replaceWhitespaceRuns ?d)
        = (if spec_words ?d = [] then [] else CHR '' '' # spec_joined (spec_words ?d))"
      by (simp add: trimEnd_Cons joined_words_Nil_iff)
    moreover have "replaceWhitespaceRuns (c # cs) = CHR '' '' # replaceWhitespaceRuns ?d"
      using True by simp
    ultimately show ?thesis
      using True by (simp only: w list.case if_True)
  next
    case False
    note ih = 2(2) [OF False]
    have step: "trimEnd (replaceWhitespaceRuns (c # cs)) = c # trimEnd (replaceWhitespaceRuns cs)"
      using False by (simp add: trimEnd_Cons)
    show ?thesis
    proof (cases cs)
      case Nil
      then show ?thesis using False by (simp add: trimEnd_Cons spec_isSpace_eq)
    next
      case (Cons c' cs')
      show ?thesis
      proof (cases "isWhitespace c'")
        case True
        have "spec_words (c # cs) = [c] # spec_words cs"
          using False True Cons by (simp add: spec_isSpace_eq)
        then show ?thesis
          unfolding step ih using False True Cons
          by (simp add: joined_single_Cons del: spec_words.simps replaceWhitespaceRuns.simps)
      next
        case F2: False
        have "spec_words cs \<noteq> []"
          using words_start [of cs] F2 Cons by (simp add: spec_isSpace_eq)
        then obtain w rest where wr: "spec_words cs = w # rest"
          by (cases "spec_words cs") auto
        have "spec_words (c # cs) = (c # w) # rest"
          using False F2 Cons wr
          by (simp add: spec_isSpace_eq del: spec_words.simps)
             (simp add: spec_isSpace_eq wr [unfolded Cons])
        then show ?thesis
          unfolding step ih using False F2 Cons wr
          by (simp add: joined_Cons_Cons del: spec_words.simps replaceWhitespaceRuns.simps)
      qed
    qed
  qed
qed

lemma dropWhile_runs:
  "dropWhile isWhitespace (replaceWhitespaceRuns s)
     = replaceWhitespaceRuns (dropWhile isWhitespace s)"
proof -
  have clean: "dropWhile isWhitespace (replaceWhitespaceRuns d) = replaceWhitespaceRuns d"
    if "d = [] \<or> \<not> isWhitespace (hd d)" for d
    using that by (cases d) auto
  show ?thesis
  proof (cases s)
    case Nil
    then show ?thesis by simp
  next
    case (Cons c cs)
    show ?thesis
    proof (cases "isWhitespace c")
      case True
      have "dropWhile isWhitespace cs = [] \<or> \<not> isWhitespace (hd (dropWhile isWhitespace cs))"
        using hd_dropWhile [of isWhitespace cs] by blast
      from clean [OF this] show ?thesis using True Cons by simp
    next
      case False
      then show ?thesis using Cons by simp
    qed
  qed
qed

lemma trim_runs: "trim (replaceWhitespaceRuns s) = spec_joined (spec_words s)"
proof -
  let ?d = "dropWhile isWhitespace s"
  have clean: "?d = [] \<or> \<not> isWhitespace (hd ?d)"
    using hd_dropWhile [of isWhitespace s] by blast
  have "trim (replaceWhitespaceRuns s) = trimEnd (replaceWhitespaceRuns ?d)"
    by (simp only: trim_def trimEnd_def dropWhile_runs)
  also have "\<dots> = spec_joined (spec_words ?d)"
  proof (cases ?d)
    case Nil
    show ?thesis unfolding Nil by simp
  next
    case (Cons e es)
    with clean have "\<not> isWhitespace e" by simp
    with trimEnd_runs [of "e # es"] show ?thesis unfolding Cons by simp
  qed
  also have "\<dots> = spec_joined (spec_words s)"
    by (simp only: words_dropWhile [unfolded spec_isSpace_eq])
  finally show ?thesis .
qed

lemma normalizeContent_spec: "normalizeContent s = spec_normalized s"
  by (simp only: normalizeContent_def spec_normalized_def trim_runs toLowerCase_spec)

subsection \<open>Title similarity\<close>

lemma computeTitleSimilarity_spec:
  "computeTitleSimilarity a b = spec_titleSimilarity a b"
proof (cases "normalizeContent a = normalizeContent b")
  case True
  then show ?thesis
    by (simp add: computeTitleSimilarity_def spec_titleSimilarity_def Let_def
          normalizeContent_spec [symmetric])
next
  case False
  then have "\<not> (normalizeContent a = [] \<and> normalizeContent b = [])" by auto
  with False show ?thesis
    by (auto simp add: computeTitleSimilarity_def spec_titleSimilarity_def Let_def
          levenshteinDistance_editDistance normalizeContent_spec [symmetric])
qed

text \<open>
  Claim C10. For every pair of titles the similarity lies in the closed interval from 0 to 1, and
  it is exactly 1 if and only if the two titles are equal after normalization; the distance
  between the normalized titles never exceeds the length of the longer of the two.
\<close>

theorem title_similarity_range:
  "0 \<le> computeTitleSimilarity t1 t2
   \<and> computeTitleSimilarity t1 t2 \<le> 1
   \<and> (computeTitleSimilarity t1 t2 = 1 \<longleftrightarrow> normalizeContent t1 = normalizeContent t2)
   \<and> levenshteinDistance (normalizeContent t1) (normalizeContent t2)
       \<le> max (length (normalizeContent t1)) (length (normalizeContent t2))"
proof -
  let ?n1 = "normalizeContent t1" and ?n2 = "normalizeContent t2"
  let ?d = "levenshteinDistance ?n1 ?n2"
  let ?m = "max (length ?n1) (length ?n2)"
  have le: "?d \<le> ?m"
    by (simp only: levenshteinDistance_editDistance editDistance_le_max)
  show ?thesis
  proof (cases "?n1 = ?n2")
    case True
    with le show ?thesis by (simp add: computeTitleSimilarity_def Let_def)
  next
    case False
    then have "editDistance ?n1 ?n2 \<noteq> 0"
      by (simp only: editDistance_eq_0_iff not_False_eq_True)
    then have pos: "0 < ?d"
      by (simp only: levenshteinDistance_editDistance neq0_conv)
    with le have m: "0 < ?m" by linarith
    have sim: "computeTitleSimilarity t1 t2 = 1 - real ?d / real ?m"
      using False m by (simp add: computeTitleSimilarity_def Let_def)
    have q1: "real ?d / real ?m \<le> 1" using le m by (simp add: divide_le_eq_1)
    have q0: "0 < real ?d / real ?m" using pos m by simp
    have c1: "0 \<le> computeTitleSimilarity t1 t2" unfolding sim using q1 by linarith
    have c2: "computeTitleSimilarity t1 t2 \<le> 1" unfolding sim using q0 by linarith
    have "computeTitleSimilarity t1 t2 \<noteq> 1" unfolding sim using q0 by linarith
    with False have c3: "(computeTitleSimilarity t1 t2 = 1) = (?n1 = ?n2)" by blast
    show ?thesis by (intro conjI c1 c2 c3 le)
  qed
qed


subsection \<open>Duplicate detection\<close>

lemma findDuplicates_exact:
  assumes "find (\<lambda>k. k_projectPath k = pp \<and> contentHash k = Some (H (normalizeContent cont))
                      \<and> supersededBy k = None) (promoted_knowledge db) = Some k"
  shows "findDuplicates H db pp ttl cont =
     [\<lparr>existingKnowledge = k, similarityScore = 1, matchType = ExactHash\<rparr>]"
  using assms by (simp add: findDuplicates_def Let_def computeContentHash_def)

lemma findDuplicates_title:
  assumes "find (\<lambda>k. k_projectPath k = pp \<and> contentHash k = Some (H (normalizeContent cont))
                      \<and> supersededBy k = None) (promoted_knowledge db) = None"
  shows "findDuplicates H db pp ttl cont =
     sort_desc similarityScore
       (map (\<lambda>k. \<lparr>existingKnowledge = k, similarityScore = computeTitleSimilarity ttl (title k),
                    matchType = TitleMatch\<rparr>)
          (filter (\<lambda>k. computeTitleSimilarity ttl (title k) \<ge> 0.85)
             (filter (\<lambda>k. k_projectPath k = pp \<and> supersededBy k = None)
                (promoted_knowledge db))))"
  using assms by (simp add: findDuplicates_def Let_def computeContentHash_def)

lemma findDuplicates_sorted:
  "sorted_wrt (\<lambda>x y. similarityScore x \<ge> similarityScore y)
     (findDuplicates sha256 db pp ttl cont)"
proof (cases "find (\<lambda>k. k_projectPath k = pp
      \<and> contentHash k = Some (sha256 (normalizeContent cont))
      \<and> supersededBy k = None) (promoted_knowledge db)")
  case None
  show ?thesis unfolding findDuplicates_title [where H = sha256 and cont = cont, OF None] by (rule sorted_sort_desc)
next
  case (Some k)
  show ?thesis unfolding findDuplicates_exact [where H = sha256 and cont = cont, OF Some] by simp
qed

lemma find_Some_ex: "\<exists>x\<in>set xs. P x \<Longrightarrow> \<exists>x. find P xs = Some x"
  by (induction xs) auto

lemma findDuplicates_cases:
  "((\<exists>k\<in>set (promoted_knowledge db). k_projectPath k = pp
        \<and> contentHash k = Some (H (normalizeContent cont)) \<and> supersededBy k = None) \<longrightarrow>
      (\<exists>k\<in>set (promoted_knowledge db). k_projectPath k = pp
        \<and> contentHash k = Some (H (normalizeContent cont)) \<and> supersededBy k = None
        \<and> findDuplicates H db pp ttl cont =
            [\<lparr>existingKnowledge = k, similarityScore = 1, matchType = ExactHash\<rparr>])
      \<and> findDuplicates H db pp ttl' cont = findDuplicates H db pp ttl cont)
   \<and> (\<not> (\<exists>k\<in>set (promoted_knowledge db). k_projectPath k = pp
        \<and> contentHash k = Some (H (normalizeContent cont)) \<and> supersededBy k = None) \<longrightarrow>
      mset (map existingKnowledge (findDuplicates H db pp ttl cont)) =
        mset (filter (\<lambda>k. k_projectPath k = pp \<and> supersededBy k = None
                \<and> spec_titleSimilarity ttl (title k) \<ge> 0.85) (promoted_knowledge db))
      \<and> (\<forall>c\<in>set (findDuplicates H db pp ttl cont).
            matchType c = TitleMatch
            \<and> similarityScore c = spec_titleSimilarity ttl (title (existingKnowledge c)))
      \<and> sorted_wrt (\<lambda>x y. similarityScore x \<ge> similarityScore y)
            (findDuplicates H db pp ttl cont))"
proof -
  let ?P = "\<lambda>k. k_projectPath k = pp \<and> contentHash k = Some (H (normalizeContent cont))
      \<and> supersededBy k = None"
  let ?rows = "promoted_knowledge db"
  have exact: "(\<exists>k\<in>set ?rows. k_projectPath k = pp
        \<and> contentHash k = Some (H (normalizeContent cont)) \<and> supersededBy k = None
        \<and> findDuplicates H db pp ttl cont =
            [\<lparr>existingKnowledge = k, similarityScore = 1, matchType = ExactHash\<rparr>])
      \<and> findDuplicates H db pp ttl' cont = findDuplicates H db pp ttl cont"
    if ex: "\<exists>k\<in>set ?rows. ?P k"
  proof -
    from find_Some_ex [of ?rows ?P, OF ex] obtain k where k: "find ?P ?rows = Some k" ..
    from find_SomeD [OF k] have "?P k" "k \<in> set ?rows" by blast+
    moreover note findDuplicates_exact [where H = H and cont = cont and ttl = ttl, OF k]
      findDuplicates_exact [where H = H and cont = cont and ttl = ttl', OF k]
    ultimately show ?thesis by (simp only:) blast
  qed
  have near: "mset (map existingKnowledge (findDuplicates H db pp ttl cont)) =
        mset (filter (\<lambda>k. k_projectPath k = pp \<and> supersededBy k = None
                \<and> spec_titleSimilarity ttl (title k) \<ge> 0.85) ?rows)
      \<and> (\<forall>c\<in>set (findDuplicates H db pp ttl cont).
            matchType c = TitleMatch
            \<and> similarityScore c = spec_titleSimilarity ttl (title (existingKnowledge c)))
      \<and> sorted_wrt (\<lambda>x y. similarityScore x \<ge> similarityScore y)
            (findDuplicates H db pp ttl cont)"
    if nex: "\<not> (\<exists>k\<in>set ?rows. ?P k)"
  proof -
    from nex have none: "find ?P ?rows = None"
      by (simp only: find_None_iff) blast
    let ?mk = "\<lambda>k. \<lparr>existingKnowledge = k, similarityScore = computeTitleSimilarity ttl (title k),
                    matchType = TitleMatch\<rparr>"
    let ?sel = "filter (\<lambda>k. computeTitleSimilarity ttl (title k) \<ge> 0.85)
             (filter (\<lambda>k. k_projectPath k = pp \<and> supersededBy k = None) ?rows)"
    have fd: "findDuplicates H db pp ttl cont = sort_desc similarityScore (map ?mk ?sel)"
      by (rule findDuplicates_title [where H = H and cont = cont, OF none])
    have "map existingKnowledge (map ?mk ?sel) = ?sel"
      by (simp add: o_def)
    then have "mset (map existingKnowledge (findDuplicates H db pp ttl cont)) = mset ?sel"
      unfolding fd by (simp only: mset_map_sort_desc)
    moreover have "?sel = filter (\<lambda>k. k_projectPath k = pp \<and> supersededBy k = None
                \<and> spec_titleSimilarity ttl (title k) \<ge> 0.85) ?rows"
      by (simp add: computeTitleSimilarity_spec conj_commute)
    ultimately have a: "mset (map existingKnowledge (findDuplicates H db pp ttl cont)) =
        mset (filter (\<lambda>k. k_projectPath k = pp \<and> supersededBy k = None
                \<and> spec_titleSimilarity ttl (title k) \<ge> 0.85) ?rows)"
      by (simp only:)
    have b: "\<forall>c\<in>set (findDuplicates H db pp ttl cont).
            matchType c = TitleMatch
            \<and> similarityScore c = spec_titleSimilarity ttl (title (existingKnowledge c))"
    proof (intro ballI)
      fix c assume "c \<in> set (findDuplicates H db pp ttl cont)"
      then have "c \<in> set (map ?mk ?sel)" unfolding fd by (simp only: set_sort_desc)
      then obtain k where "c = ?mk k" by (simp only: set_map image_iff) blast
      then show "matchType c = TitleMatch
            \<and> similarityScore c = spec_titleSimilarity ttl (title (existingKnowledge c))"
        by (simp add: computeTitleSimilarity_spec)
    qed
    from a b findDuplicates_sorted show ?thesis by (intro conjI)
  qed
  show ?thesis
    by (rule conjI; rule impI; (erule exact | erule near))
qed


text \<open>
  Claim C3. The normalized candidate content is the content lower-cased, with its whitespace
  runs collapsed to a single space, and trimmed. If some non-superseded item of the project
  stores the digest of the normalized candidate content, \<open>findDuplicates\<close> returns one
  candidate: such an item, with similarity 1.0 and match type exact, whatever the candidate
  title is. Otherwise it returns, each once, the non-superseded items of the project whose title
  similarity (one minus the edit distance of the normalized titles over the length of the longer
  one, 1.0 when both are empty) is at least 0.85, each with match type title and that
  similarity, sorted by descending similarity.
\<close>

theorem findDuplicates_exact_then_title:
  "((\<exists>k\<in>set (promoted_knowledge db). k_projectPath k = pp
        \<and> contentHash k = Some (sha256 (spec_normalized cont)) \<and> supersededBy k = None) \<longrightarrow>
      (\<exists>k\<in>set (promoted_knowledge db). k_projectPath k = pp
        \<and> contentHash k = Some (sha256 (spec_normalized cont)) \<and> supersededBy k = None
        \<and> findDuplicates sha256 db pp ttl cont =
            [\<lparr>existingKnowledge = k, similarityScore = 1, matchType = ExactHash\<rparr>])
      \<and> findDuplicates sha256 db pp ttl' cont = findDuplicates sha256 db pp ttl cont)
   \<and> (\<not> (\<exists>k\<in>set (promoted_knowledge db). k_projectPath k = pp
        \<and> contentHash k = Some (sha256 (spec_normalized cont)) \<and> supersededBy k = None) \<longrightarrow>
      mset (map existingKnowledge (findDuplicates sha256 db pp ttl cont)) =
        mset (filter (\<lambda>k. k_projectPath k = pp \<and> supersededBy k = None
                \<and> spec_titleSimilarity ttl (title k) \<ge> 0.85) (promoted_knowledge db))
      \<and> (\<forall>c\<in>set (findDuplicates sha256 db pp ttl cont).
            matchType c = TitleMatch
            \<and> similarityScore c = spec_titleSimilarity ttl (title (existingKnowledge c)))
      \<and> sorted_wrt (\<lambda>x y. similarityScore x \<ge> similarityScore y)
            (findDuplicates sha256 db pp ttl cont))"
  unfolding normalizeContent_spec [symmetric]
  by (rule findDuplicates_cases [where H = sha256])


lemma ex_normalize_content:
  "normalizeContent ''Tokens  ARE signed'' = ''tokens are signed''"
  by (simp add: normalizeContent_def trim_def toLowerCase_def toLowerChar_def lowerCaseTable_def
        isWhitespace_def)

lemma ex_exact_duplicate:
  "findDuplicates ex_hash ex_knowledge_db ''/p'' ttl ''Tokens  ARE signed'' =
     [\<lparr>existingKnowledge = ex_knowledge, similarityScore = 1, matchType = ExactHash\<rparr>]"
  by (simp add: findDuplicates_def computeContentHash_def ex_normalize_content ex_hash_def
        ex_knowledge_db_def ex_knowledge_def Let_def)

lemma ex_normalize_candidate_content:
  "normalizeContent ex_candidate_content = ''r'' @ [CHR 0xE9] @ ''sum'' @ [CHR 0xE9]"
  by (simp add: ex_candidate_content_def normalizeContent_def trim_def toLowerCase_def
        toLowerChar_def lowerCaseTable_def isWhitespace_def)

lemma ex_normalize_other:
  "normalizeContent ''Other content'' = ''other content''"
  by (simp add: normalizeContent_def trim_def toLowerCase_def toLowerChar_def lowerCaseTable_def
        isWhitespace_def)

lemma ex_normalize_candidate_title:
  "normalizeContent ex_candidate_title = ''caf'' @ [CHR 0xE9] @ '' menus''"
  by (simp add: ex_candidate_title_def normalizeContent_def trim_def toLowerCase_def
        toLowerChar_def lowerCaseTable_def isWhitespace_def)

lemma ex_normalize_stored_title:
  "normalizeContent (title ex_latin_knowledge) = ''caf'' @ [CHR 0xE9] @ '' menu''"
  by (simp add: ex_latin_knowledge_def normalizeContent_def trim_def toLowerCase_def
        toLowerChar_def lowerCaseTable_def isWhitespace_def)

lemma ex_similarity:
  "spec_titleSimilarity ex_candidate_title (title ex_latin_knowledge) = 9 / 10"
  by (simp add: spec_titleSimilarity_def normalizeContent_spec [symmetric]
        ex_normalize_candidate_title ex_normalize_stored_title)

lemma ex_latin_exact_duplicate:
  "findDuplicates ex_hash ex_latin_db ''/p'' ttl ex_candidate_content =
     [\<lparr>existingKnowledge = ex_latin_knowledge, similarityScore = 1, matchType = ExactHash\<rparr>]"
  by (simp add: findDuplicates_def computeContentHash_def ex_normalize_candidate_content
        ex_hash_def ex_latin_db_def ex_latin_knowledge_def Let_def)

lemma ex_latin_title_duplicate:
  "findDuplicates ex_hash ex_latin_db ''/p'' ex_candidate_title ''Other content'' =
     [\<lparr>existingKnowledge = ex_latin_knowledge, similarityScore = 9 / 10,
        matchType = TitleMatch\<rparr>]"
proof -
  have "computeTitleSimilarity ex_candidate_title (title ex_latin_knowledge) = 9 / 10"
    by (simp only: computeTitleSimilarity_spec ex_similarity)
  moreover have "find (\<lambda>k. k_projectPath k = ''/p''
      \<and> contentHash k = Some (ex_hash (normalizeContent ''Other content''))
      \<and> supersededBy k = None) (promoted_knowledge ex_latin_db) = None"
    by (simp add: ex_normalize_other ex_hash_def ex_latin_db_def ex_latin_knowledge_def)
  moreover have "filter (\<lambda>k. k_projectPath k = ''/p'' \<and> supersededBy k = None)
      (promoted_knowledge ex_latin_db) = [ex_latin_knowledge]"
    by (simp add: ex_latin_db_def ex_latin_knowledge_def)
  ultimately show ?thesis
    by (simp add: findDuplicates_title [where H = ex_hash and cont = "''Other content''"])
qed


text \<open>
  In the store that holds the item \<open>CafE menu\<close>: the candidate content differs from the
  item's in case and whitespace only, and is an exact duplicate under any title; other content
  under the candidate title, whose normal form is one character longer than the item's, is a
  title duplicate of similarity 9/10.
\<close>

theorem findDuplicates_exact_then_title_witness:
  "spec_normalized ex_candidate_content = ''r'' @ [CHR 0xE9] @ ''sum'' @ [CHR 0xE9]
   \<and> spec_normalized ex_candidate_title = ''caf'' @ [CHR 0xE9] @ '' menus''
   \<and> filter (\<lambda>k. k_projectPath k = ''/p''
        \<and> contentHash k = Some (ex_hash (spec_normalized ex_candidate_content))
        \<and> supersededBy k = None) (promoted_knowledge ex_latin_db) = [ex_latin_knowledge]
   \<and> findDuplicates ex_hash ex_latin_db ''/p'' ''Another title'' ex_candidate_content =
       [\<lparr>existingKnowledge = ex_latin_knowledge, similarityScore = 1, matchType = ExactHash\<rparr>]
   \<and> findDuplicates ex_hash ex_latin_db ''/p'' ''Third title'' ex_candidate_content =
       findDuplicates ex_hash ex_latin_db ''/p'' ''Another title'' ex_candidate_content
   \<and> filter (\<lambda>k. k_projectPath k = ''/p''
        \<and> contentHash k = Some (ex_hash (spec_normalized ''Other content''))
        \<and> supersededBy k = None) (promoted_knowledge ex_latin_db) = []
   \<and> findDuplicates ex_hash ex_latin_db ''/p'' ex_candidate_title ''Other content'' =
       [\<lparr>existingKnowledge = ex_latin_knowledge, similarityScore = 9 / 10,
          matchType = TitleMatch\<rparr>]
   \<and> mset (map existingKnowledge (findDuplicates ex_hash ex_latin_db ''/p''
        ex_candidate_title ''Other content'')) =
       mset (filter (\<lambda>k. k_projectPath k = ''/p'' \<and> supersededBy k = None
          \<and> spec_titleSimilarity ex_candidate_title (title k) \<ge> 0.85)
          (promoted_knowledge ex_latin_db))"
proof -
  have n1: "spec_normalized ex_candidate_content = ''r'' @ [CHR 0xE9] @ ''sum'' @ [CHR 0xE9]"
    by (simp only: normalizeContent_spec [symmetric] ex_normalize_candidate_content)
  have n2: "spec_normalized ex_candidate_title = ''caf'' @ [CHR 0xE9] @ '' menus''"
    by (simp only: normalizeContent_spec [symmetric] ex_normalize_candidate_title)
  have n3: "spec_normalized ''Other content'' = ''other content''"
    by (simp only: normalizeContent_spec [symmetric] ex_normalize_other)
  have f1: "filter (\<lambda>k. k_projectPath k = ''/p''
        \<and> contentHash k = Some (ex_hash (spec_normalized ex_candidate_content))
        \<and> supersededBy k = None) (promoted_knowledge ex_latin_db) = [ex_latin_knowledge]"
    by (simp add: n1 ex_hash_def ex_latin_db_def ex_latin_knowledge_def)
  have f2: "filter (\<lambda>k. k_projectPath k = ''/p''
        \<and> contentHash k = Some (ex_hash (spec_normalized ''Other content''))
        \<and> supersededBy k = None) (promoted_knowledge ex_latin_db) = []"
    by (simp add: n3 ex_hash_def ex_latin_db_def ex_latin_knowledge_def)
  have h1: "\<exists>k\<in>set (promoted_knowledge ex_latin_db). k_projectPath k = ''/p''
        \<and> contentHash k = Some (ex_hash (spec_normalized ex_candidate_content))
        \<and> supersededBy k = None"
    by (simp add: n1 ex_hash_def ex_latin_db_def ex_latin_knowledge_def)
  have h2: "\<not> (\<exists>k\<in>set (promoted_knowledge ex_latin_db). k_projectPath k = ''/p''
        \<and> contentHash k = Some (ex_hash (spec_normalized ''Other content''))
        \<and> supersededBy k = None)"
    by (simp add: n3 ex_hash_def ex_latin_db_def ex_latin_knowledge_def)
  note c1 = findDuplicates_exact_then_title [of ex_latin_db "''/p''" ex_hash
      ex_candidate_content "''Another title''" "''Third title''",
      THEN conjunct1, THEN mp, OF h1, THEN conjunct2]
  note c2 = findDuplicates_exact_then_title [of ex_latin_db "''/p''" ex_hash
      "''Other content''" ex_candidate_title "''Third title''",
      THEN conjunct2, THEN mp, OF h2, THEN conjunct1]
  show ?thesis
    by (intro conjI n1 n2 f1 f2 c1 c2 ex_latin_exact_duplicate ex_latin_title_duplicate)
qed

subsection \<open>Promoting knowledge\<close>

lemma sorted_desc_hd_max:
  fixes f :: "'a \<Rightarrow> 'b::linorder"
  assumes "sorted_wrt (\<lambda>x y. f x \<ge> f y) xs" and "x \<in> set xs"
  shows "f x \<le> f (hd xs)"
  using assms by (cases xs) auto

lemma insertKnowledge_admissible:
  assumes "insertAdmissible db (knowledgeId k) (k_sessionId k) (sourceEventId k)"
  shows "insertKnowledge db k = Some (db\<lparr>promoted_knowledge := promoted_knowledge db @
        [k\<lparr>syncedAt := None, synapseKnowledgeId := None, supersededBy := None,
           usageCount := Some (case usageCount k of None \<Rightarrow> 0 | Some n \<Rightarrow> n)\<rparr>]\<rparr>)"
  using assms
  by (cases "k_sessionId k"; cases "sourceEventId k")
     (simp_all add: insertKnowledge_def insertAdmissible_def)

lemma insertKnowledge_inadmissible:
  assumes "\<not> insertAdmissible db (knowledgeId k) (k_sessionId k) (sourceEventId k)"
  shows "insertKnowledge db k = None"
  using assms
  by (cases "k_sessionId k"; cases "sourceEventId k")
     (auto simp add: insertKnowledge_def insertAdmissible_def)

lemma promoteInsert_result:
  "promoteInsert H newId now db pp ttl cont kt tgs sid src supers =
     (if insertAdmissible db newId sid src
      then (let row = \<lparr>knowledgeId = newId, k_projectPath = pp, k_sessionId = sid,
                      sourceEventId = src, title = ttl, content = cont, knowledgeType = kt,
                      tags = (case tgs of None \<Rightarrow> [] | Some ts \<Rightarrow> ts), createdAt = now,
                      syncedAt = None, synapseKnowledgeId = None,
                      k_branch = (case sid of None \<Rightarrow> None
                        | Some i \<Rightarrow> if i = [] then None
                                    else map_option branch (getSession db i)),
                      contentHash = Some (H (normalizeContent cont)), usageCount = Some 0,
                      supersededBy = None\<rparr>;
                db' = db\<lparr>promoted_knowledge :=
                        map (\<lambda>k. if (case supers of None \<Rightarrow> False
                                      | Some old \<Rightarrow> old \<noteq> [] \<and> knowledgeId k = old)
                                  then k\<lparr>supersededBy := Some newId\<rparr> else k)
                          (promoted_knowledge db @ [row])\<rparr>
            in (db', KnowledgePromoted row (length (getProjectKnowledge db' pp None 100))))
      else (db, PromoteFailed))"
proof -
  define k where "k = \<lparr>knowledgeId = newId, k_projectPath = pp, k_sessionId = sid,
                 sourceEventId = src, title = ttl, content = cont, knowledgeType = kt,
                 tags = (case tgs of None \<Rightarrow> [] | Some ts \<Rightarrow> ts), createdAt = now,
                 syncedAt = None, synapseKnowledgeId = None,
                 k_branch = (case sid of None \<Rightarrow> None
                   | Some i \<Rightarrow> if i = [] then None
                            else (case getSession db i of None \<Rightarrow> None
                                  | Some s \<Rightarrow> Some (branch s))),
                 contentHash = Some (computeContentHash H cont), usageCount = Some 0,
                 supersededBy = None\<rparr>"
  have k_row: "k = \<lparr>knowledgeId = newId, k_projectPath = pp, k_sessionId = sid,
                      sourceEventId = src, title = ttl, content = cont, knowledgeType = kt,
                      tags = (case tgs of None \<Rightarrow> [] | Some ts \<Rightarrow> ts), createdAt = now,
                      syncedAt = None, synapseKnowledgeId = None,
                      k_branch = (case sid of None \<Rightarrow> None
                        | Some i \<Rightarrow> if i = [] then None
                                    else map_option branch (getSession db i)),
                      contentHash = Some (H (normalizeContent cont)), usageCount = Some 0,
                      supersededBy = None\<rparr>"
    unfolding k_def computeContentHash_def
    by (cases sid) (simp_all add: map_option_case)
  have k_fields: "knowledgeId k = newId" "k_sessionId k = sid" "sourceEventId k = src"
    by (simp_all add: k_def)
  have stored: "k\<lparr>syncedAt := None, synapseKnowledgeId := None, supersededBy := None,
           usageCount := Some (case usageCount k of None \<Rightarrow> 0 | Some n \<Rightarrow> n)\<rparr> = k"
    by (simp add: k_def)
  define db1 where "db1 = db\<lparr>promoted_knowledge := promoted_knowledge db @ [k]\<rparr>"
  define db2 where "db2 = (case supers of None \<Rightarrow> db1
                        | Some old \<Rightarrow> if old = [] then db1 else markSuperseded db1 old newId)"
  have db2_eq: "db2 = db\<lparr>promoted_knowledge :=
                        map (\<lambda>k. if (case supers of None \<Rightarrow> False
                                      | Some old \<Rightarrow> old \<noteq> [] \<and> knowledgeId k = old)
                                  then k\<lparr>supersededBy := Some newId\<rparr> else k)
                          (promoted_knowledge db @ [k])\<rparr>"
  proof (cases supers)
    case None
    then show ?thesis by (simp add: db2_def db1_def)
  next
    case (Some old)
    then show ?thesis
      by (cases "old = []") (simp_all add: db2_def db1_def markSuperseded_def)
  qed
  show ?thesis
  proof (cases "insertAdmissible db newId sid src")
    case True
    then have "insertAdmissible db (knowledgeId k) (k_sessionId k) (sourceEventId k)"
      by (simp only: k_fields)
    from insertKnowledge_admissible [OF this] have ins: "insertKnowledge db k = Some db1"
      by (simp only: stored db1_def)
    have "promoteInsert H newId now db pp ttl cont kt tgs sid src supers
        = (db2, KnowledgePromoted k (length (getProjectKnowledge db2 pp None 100)))"
      unfolding promoteInsert_def Let_def k_def [symmetric] ins db2_def by simp
    then show ?thesis
      unfolding db2_eq using True by (simp only: if_True Let_def k_row [symmetric])
  next
    case False
    then have "\<not> insertAdmissible db (knowledgeId k) (k_sessionId k) (sourceEventId k)"
      by (simp only: k_fields not_False_eq_True)
    from insertKnowledge_inadmissible [OF this] have ins: "insertKnowledge db k = None" .
    have "promoteInsert H newId now db pp ttl cont kt tgs sid src supers = (db, PromoteFailed)"
      unfolding promoteInsert_def Let_def k_def [symmetric] ins by simp
    then show ?thesis using False by (simp only: if_False)
  qed
qed

text \<open>
  Claim C6 as stated fails when \<open>allowDuplicate\<close> is set and the request cites an event
  that the store does not hold: the insert violates the foreign key, nothing is inserted and
  the failure is reported.
\<close>

theorem promote_allowDuplicate_insert_fails_counterexample:
  "handlePromoteKnowledge ex_hash ''k2'' ''2026-01-15T12:00:00.000Z'' ex_knowledge_db ''/p''
      ''A new title'' ''New content'' KDecision None None (Some ''e404'') (Some True) None
     = (ex_knowledge_db, PromoteFailed)"
  by (simp add: handlePromoteKnowledge_def promoteInsert_def insertKnowledge_def Let_def
        ex_knowledge_db_def ex_knowledge_def)

text \<open>
  Claim C6, amended. A promote\_knowledge request that does not allow duplicates and for which
  duplicate detection finds a candidate is refused: the store is returned unchanged and the
  result carries the first candidate, whose similarity no other candidate exceeds. With
  \<open>allowDuplicate\<close> set the request goes straight to the insert, whatever duplicates the
  store holds. If the new identifier is unused and the session and the event that the request
  cites, if any, are in the store, the row is appended as the request gives it, with the branch
  of the cited session, the digest of the normalized content, a usage count of 0 and no
  superseded-by mark, the item named by \<open>supersedes\<close> is marked as superseded by the new one,
  and the promotion is reported with the number of items of the project; otherwise nothing is
  inserted, the store is returned unchanged and the failure is reported.
\<close>

theorem promote_refused_or_insert_attempted:
  "(allow \<noteq> Some True \<and> findDuplicates sha256 db pp ttl cont \<noteq> [] \<longrightarrow>
      handlePromoteKnowledge sha256 newId now db pp ttl cont kt tgs sid src allow supers
        = (db, DuplicateDetected (hd (findDuplicates sha256 db pp ttl cont)))
      \<and> (\<forall>c\<in>set (findDuplicates sha256 db pp ttl cont).
            similarityScore c \<le> similarityScore (hd (findDuplicates sha256 db pp ttl cont))))
   \<and> handlePromoteKnowledge sha256 newId now db pp ttl cont kt tgs sid src (Some True) supers
        = promoteInsert sha256 newId now db pp ttl cont kt tgs sid src supers
   \<and> handlePromoteKnowledge sha256 newId now db pp ttl cont kt tgs sid src (Some True) supers =
     (if insertAdmissible db newId sid src
      then (let row = \<lparr>knowledgeId = newId, k_projectPath = pp, k_sessionId = sid,
                      sourceEventId = src, title = ttl, content = cont, knowledgeType = kt,
                      tags = (case tgs of None \<Rightarrow> [] | Some ts \<Rightarrow> ts), createdAt = now,
                      syncedAt = None, synapseKnowledgeId = None,
                      k_branch = (case sid of None \<Rightarrow> None
                        | Some i \<Rightarrow> if i = [] then None
                                    else map_option branch (getSession db i)),
                      contentHash = Some (sha256 (normalizeContent cont)), usageCount = Some 0,
                      supersededBy = None\<rparr>;
                db' = db\<lparr>promoted_knowledge :=
                        map (\<lambda>k. if (case supers of None \<Rightarrow> False
                                      | Some old \<Rightarrow> old \<noteq> [] \<and> knowledgeId k = old)
                                  then k\<lparr>supersededBy := Some newId\<rparr> else k)
                          (promoted_knowledge db @ [row])\<rparr>
            in (db', KnowledgePromoted row (length (getProjectKnowledge db' pp None 100))))
      else (db, PromoteFailed))"
proof -
  have a: "handlePromoteKnowledge sha256 newId now db pp ttl cont kt tgs sid src allow supers
        = (db, DuplicateDetected (hd (findDuplicates sha256 db pp ttl cont)))
      \<and> (\<forall>c\<in>set (findDuplicates sha256 db pp ttl cont).
            similarityScore c \<le> similarityScore (hd (findDuplicates sha256 db pp ttl cont)))"
    if h: "allow \<noteq> Some True \<and> findDuplicates sha256 db pp ttl cont \<noteq> []"
  proof (rule conjI)
    show "handlePromoteKnowledge sha256 newId now db pp ttl cont kt tgs sid src allow supers
        = (db, DuplicateDetected (hd (findDuplicates sha256 db pp ttl cont)))"
      unfolding handlePromoteKnowledge_def using h by (simp only: if_True simp_thms)
    show "\<forall>c\<in>set (findDuplicates sha256 db pp ttl cont).
            similarityScore c \<le> similarityScore (hd (findDuplicates sha256 db pp ttl cont))"
      using sorted_desc_hd_max [OF findDuplicates_sorted] by blast
  qed
  have b: "handlePromoteKnowledge sha256 newId now db pp ttl cont kt tgs sid src (Some True) supers
        = promoteInsert sha256 newId now db pp ttl cont kt tgs sid src supers"
    unfolding handlePromoteKnowledge_def by (simp only: simp_thms if_False)
  note c = promoteInsert_result [where H = sha256, of newId now db pp ttl cont kt tgs sid src supers]
  show ?thesis
    by (rule conjI, rule impI, erule a, rule conjI, rule b, unfold b, rule c)
qed


text \<open>
  Promoting the exact duplicate of the example is refused without the flag; with the flag it is
  stored as a second row.
\<close>

theorem promote_refused_or_insert_attempted_witness:
  "handlePromoteKnowledge ex_hash ''k2'' ''2026-01-15T12:00:00.000Z'' ex_knowledge_db ''/p''
      ''Another title'' ''Tokens  ARE signed'' KDecision None None None None None
     = (ex_knowledge_db, DuplicateDetected
          \<lparr>existingKnowledge = ex_knowledge, similarityScore = 1, matchType = ExactHash\<rparr>)
   \<and> insertAdmissible ex_knowledge_db ''k2'' None None
   \<and> fst (handlePromoteKnowledge ex_hash ''k2'' ''2026-01-15T12:00:00.000Z'' ex_knowledge_db
        ''/p'' ''Another title'' ''Tokens  ARE signed'' KDecision None None None (Some True) None)
     = ex_knowledge_db\<lparr>promoted_knowledge := [ex_knowledge,
         \<lparr>knowledgeId = ''k2'', k_projectPath = ''/p'', k_sessionId = None,
          sourceEventId = None, title = ''Another title'', content = ''Tokens  ARE signed'',
          knowledgeType = KDecision, tags = [], createdAt = ''2026-01-15T12:00:00.000Z'',
          syncedAt = None, synapseKnowledgeId = None, k_branch = None,
          contentHash = Some ''tokens are signed'', usageCount = Some 0,
          supersededBy = None\<rparr>]\<rparr>"
proof -
  note th = promote_refused_or_insert_attempted [of None ex_hash ex_knowledge_db "''/p''"
      "''Another title''" "''Tokens  ARE signed''" "''k2''" "''2026-01-15T12:00:00.000Z''"
      KDecision None None None None]
  have h: "None \<noteq> Some True
      \<and> findDuplicates ex_hash ex_knowledge_db ''/p'' ''Another title'' ''Tokens  ARE signed''
          \<noteq> []"
    by (simp add: ex_exact_duplicate)
  have adm: "insertAdmissible ex_knowledge_db ''k2'' None None"
    by (simp add: insertAdmissible_def ex_knowledge_db_def ex_knowledge_def)
  note c1 = th [THEN conjunct1, THEN mp, OF h, THEN conjunct1]
  note c3 = th [THEN conjunct2, THEN conjunct2]
  have rows: "promoted_knowledge ex_knowledge_db = [ex_knowledge]"
    by (simp add: ex_knowledge_db_def)
  have stored: "fst (handlePromoteKnowledge ex_hash ''k2'' ''2026-01-15T12:00:00.000Z''
        ex_knowledge_db ''/p'' ''Another title'' ''Tokens  ARE signed'' KDecision None None None
        (Some True) None)
     = ex_knowledge_db\<lparr>promoted_knowledge := [ex_knowledge,
         \<lparr>knowledgeId = ''k2'', k_projectPath = ''/p'', k_sessionId = None,
          sourceEventId = None, title = ''Another title'', content = ''Tokens  ARE signed'',
          knowledgeType = KDecision, tags = [], createdAt = ''2026-01-15T12:00:00.000Z'',
          syncedAt = None, synapseKnowledgeId = None, k_branch = None,
          contentHash = Some ''tokens are signed'', usageCount = Some 0,
          supersededBy = None\<rparr>]\<rparr>"
    unfolding c3 by (simp add: adm Let_def rows ex_normalize_content ex_hash_def)
  show ?thesis
    by (simp only: c1 adm stored ex_exact_duplicate list.sel simp_thms)
qed


end
